theory Spec2Isabelle
  imports Main
begin

section \<open>Data model\<close>

text \<open>
  The store of \<^verbatim>\<open>dtmsvr/storage/sql/sql.go\<close> keeps two tables: a row of
  \<^verbatim>\<open>trans_global\<close> is a \<^verbatim>\<open>storage.TransGlobalStore\<close>, a row of
  \<^verbatim>\<open>trans_branch_op\<close> a \<^verbatim>\<open>storage.TransBranchStore\<close>.
\<close>

text \<open>
  Modelled from the spec: the declarations of \<^verbatim>\<open>storage.TransGlobalStore\<close> and
  \<^verbatim>\<open>storage.TransBranchStore\<close> are not in \<^verbatim>\<open>sql.go\<close>. The records carry
  the fields that the data model of the specification lists: for a global
  transaction \<open>id\<close>, \<open>updateTime\<close>, \<open>gid\<close>, \<open>status\<close>, \<open>nextCronInterval\<close>,
  \<open>nextCronTime\<close> and \<open>owner\<close>; for a branch \<open>id\<close>, \<open>gid\<close>, \<open>branchId\<close>,
  \<open>op\<close> and \<open>status\<close>. Timestamps are whole seconds (the unit of the SQL
  interval arithmetic in \<^verbatim>\<open>getTime\<close> and of \<^verbatim>\<open>GetNextTime\<close>); a
  \<^verbatim>\<open>*time.Time\<close> that is nil, or a column that is NULL, is \<open>None\<close>.
\<close>

record TransGlobalStore =
  ID :: nat
  UpdateTime :: "int option"
  Gid :: string
  Status :: string
  NextCronInterval :: int
  NextCronTime :: "int option"
  Owner :: string

record TransBranchStore =
  bID :: nat
  bGid :: string
  BranchID :: string
  Op :: string
  bStatus :: string

record db =
  trans_global :: "TransGlobalStore list"
  trans_branch_op :: "TransBranchStore list"

text \<open>
  What the package reads from its surroundings: the configuration
  (\<^verbatim>\<open>conf.Store.Driver\<close>, \<^verbatim>\<open>conf.RetryInterval\<close>), the clock (SQL
  \<^verbatim>\<open>now()\<close> and \<^verbatim>\<open>time.Now()\<close>, one instant per call) and the token
  that \<^verbatim>\<open>shortuuid.New()\<close> hands out. The connection string is built outside
  \<^verbatim>\<open>sql.go\<close>; \<open>ClientFoundRows\<close> says whether it sets the MySQL driver's
  \<^verbatim>\<open>clientFoundRows\<close> (the driver's default is not to).
\<close>

record env =
  Driver :: string
  ClientFoundRows :: bool
  RetryInterval :: int
  now :: int
  uuid :: string

text \<open>
  The errors: \<^verbatim>\<open>storage.ErrNotFound\<close>, \<^verbatim>\<open>storage.ErrUniqueConflict\<close>,
  \<^verbatim>\<open>gorm.ErrRecordNotFound\<close>, \<^verbatim>\<open>gorm.ErrEmptySlice\<close>, a statement the
  engine rejects, the error of \<^verbatim>\<open>strconv.Atoi\<close>, and Go's index-out-of-range
  panic.
\<close>

datatype error =
  ErrNotFound
  | ErrUniqueConflict
  | ErrRecordNotFound
  | ErrEmptySlice
  | ErrSQL
  | ErrAtoi
  | ErrIndex

text \<open>A call either returns or panics (\<^verbatim>\<open>dtmimp.E2P\<close>, \<^verbatim>\<open>Must()\<close>, a
  runtime panic).\<close>

datatype 'a result = Return 'a | Panic error

section \<open>The gorm statements the store issues\<close>

text \<open>
  gorm and the SQL engine behind it are libraries, not code of the repository. A
  table is the list of its rows in the order the engine visits them.

  \<^verbatim>\<open>Limit(n)\<close> puts \<^verbatim>\<open>LIMIT n\<close> into a statement only for a positive \<open>n\<close>,
  and into an \<^verbatim>\<open>UPDATE\<close> only with the mysql dialect: the other dialects build
  an update from \<^verbatim>\<open>UPDATE\<close>, \<^verbatim>\<open>SET\<close> and \<^verbatim>\<open>WHERE\<close> alone, PostgreSQL
  having no \<^verbatim>\<open>UPDATE ... LIMIT\<close>. An \<^verbatim>\<open>UPDATE ... WHERE p\<close> rewrites every row
  that satisfies \<open>p\<close>; with \<^verbatim>\<open>LIMIT n\<close> it stops after \<open>n\<close> such rows.
\<close>

fun update_limit :: "nat \<Rightarrow> ('r \<Rightarrow> bool) \<Rightarrow> ('r \<Rightarrow> 'r) \<Rightarrow> 'r list \<Rightarrow> 'r list" where
  "update_limit 0 p f rs = rs"
| "update_limit (Suc n) p f [] = []"
| "update_limit (Suc n) p f (r # rs) =
     (if p r then f r # update_limit n p f rs else r # update_limit (Suc n) p f rs)"

definition update_all :: "('r \<Rightarrow> bool) \<Rightarrow> ('r \<Rightarrow> 'r) \<Rightarrow> 'r list \<Rightarrow> 'r list" where
  "update_all p f rs = map (\<lambda>r. if p r then f r else r) rs"

definition sql_limit :: "int option \<Rightarrow> 'r list \<Rightarrow> 'r list" where
  "sql_limit lim rs =
     (case lim of
        None \<Rightarrow> rs
      | Some n \<Rightarrow> if 0 < n then take (nat n) rs else rs)"

text \<open>The \<^verbatim>\<open>LIMIT\<close> that reaches an \<^verbatim>\<open>UPDATE\<close>, if any.\<close>

definition update_bound :: "env \<Rightarrow> int option \<Rightarrow> nat option" where
  "update_bound e lim =
     (case lim of
        None \<Rightarrow> None
      | Some n \<Rightarrow> if Driver e = ''mysql'' \<and> 0 < n then Some (nat n) else None)"

text \<open>
  \<^verbatim>\<open>RowsAffected\<close> after an update: MySQL reports the rows the statement
  changed, unless the connection asks for the rows found; the other engines report
  the rows the statement rewrote, changed or not.
\<close>

definition counts_changed :: "env \<Rightarrow> bool" where
  "counts_changed e = (Driver e = ''mysql'' \<and> \<not> ClientFoundRows e)"

definition sql_update :: "env \<Rightarrow> ('r \<Rightarrow> bool) \<Rightarrow> int option \<Rightarrow> ('r \<Rightarrow> 'r) \<Rightarrow> 'r list \<Rightarrow> int \<times> 'r list" where
  "sql_update e p lim f rs =
     (let rs' = (case update_bound e lim of
                   None \<Rightarrow> update_all p f rs
                 | Some n \<Rightarrow> update_limit n p f rs);
          rewritten = (case update_bound e lim of
                         None \<Rightarrow> filter p rs
                       | Some n \<Rightarrow> take n (filter p rs))
      in (if counts_changed e
          then int (length (filter (\<lambda>(r, r'). r' \<noteq> r) (zip rs rs')))
          else int (length rewritten),
          rs'))"

text \<open>
  \<^verbatim>\<open>Select(cols).Updates(v)\<close> writes columns of the struct \<open>v\<close> into the row. A
  column is named by its column name or by its Go field name, \<^verbatim>\<open>"*"\<close> names
  them all, and a name that is no column names nothing. With an empty \<open>cols\<close>
  nothing is selected and \<^verbatim>\<open>Updates\<close> writes the fields of \<open>v\<close> that are not
  the zero value of their type. The primary key is never assigned.
\<close>

definition assign_col :: "TransGlobalStore \<Rightarrow> string \<Rightarrow> TransGlobalStore \<Rightarrow> TransGlobalStore" where
  "assign_col v c r =
     (if c = ''update_time'' \<or> c = ''UpdateTime'' then r\<lparr>UpdateTime := UpdateTime v\<rparr>
      else if c = ''gid'' \<or> c = ''Gid'' then r\<lparr>Gid := Gid v\<rparr>
      else if c = ''status'' \<or> c = ''Status'' then r\<lparr>Status := Status v\<rparr>
      else if c = ''next_cron_interval'' \<or> c = ''NextCronInterval''
        then r\<lparr>NextCronInterval := NextCronInterval v\<rparr>
      else if c = ''next_cron_time'' \<or> c = ''NextCronTime'' then r\<lparr>NextCronTime := NextCronTime v\<rparr>
      else if c = ''owner'' \<or> c = ''Owner'' then r\<lparr>Owner := Owner v\<rparr>
      else r)"

definition assign_all :: "TransGlobalStore \<Rightarrow> TransGlobalStore \<Rightarrow> TransGlobalStore" where
  "assign_all v r = v\<lparr>ID := ID r\<rparr>"

definition assign_nonzero :: "TransGlobalStore \<Rightarrow> TransGlobalStore \<Rightarrow> TransGlobalStore" where
  "assign_nonzero v r =
     r\<lparr>UpdateTime := (if UpdateTime v \<noteq> None then UpdateTime v else UpdateTime r),
       Gid := (if Gid v \<noteq> [] then Gid v else Gid r),
       Status := (if Status v \<noteq> [] then Status v else Status r),
       NextCronInterval :=
         (if NextCronInterval v \<noteq> 0 then NextCronInterval v else NextCronInterval r),
       NextCronTime := (if NextCronTime v \<noteq> None then NextCronTime v else NextCronTime r),
       Owner := (if Owner v \<noteq> [] then Owner v else Owner r)\<rparr>"

definition assign_cols :: "string list \<Rightarrow> TransGlobalStore \<Rightarrow> TransGlobalStore \<Rightarrow> TransGlobalStore" where
  "assign_cols cols v r =
     (if cols = [] then assign_nonzero v r
      else if ''*'' \<in> set cols then assign_all v r
      else fold (assign_col v) cols r)"

text \<open>
  \<^verbatim>\<open>Model(m). ... .Updates(m)\<close>, with the same struct as model and as values, adds
  the primary key of \<open>m\<close> to the \<^verbatim>\<open>WHERE\<close> clause when it is not zero.
\<close>

definition model_pk :: "TransGlobalStore \<Rightarrow> TransGlobalStore \<Rightarrow> bool" where
  "model_pk m r = (ID m = 0 \<or> ID r = ID m)"

section \<open>Helpers of the repository that \<^verbatim>\<open>sql.go\<close> calls\<close>

text \<open>
  Modelled from the spec: \<^verbatim>\<open>dtmimp.E2P\<close> is not in \<^verbatim>\<open>sql.go\<close>; it is
  the "error raised via abort/panic" of the design notes: a non-nil error panics.
\<close>

definition E2P :: "error option \<Rightarrow> unit result" where
  "E2P err = (case err of None \<Rightarrow> Return () | Some e \<Rightarrow> Panic e)"

text \<open>
  Modelled from the spec: \<^verbatim>\<open>dtmutil.GetNextTime\<close> is not in \<^verbatim>\<open>sql.go\<close>;
  the specification writes its result as \<^verbatim>\<open>now() + interval\<close>, the interval in
  seconds.
\<close>

definition GetNextTime :: "env \<Rightarrow> int \<Rightarrow> int option" where
  "GetNextTime e second = Some (now e + second)"

text \<open>
  \<^verbatim>\<open>time.Second\<close> in nanoseconds, the unit of \<^verbatim>\<open>time.Duration\<close>, and Go's
  integer division, which truncates towards zero.
\<close>

definition time_Second :: int where
  "time_Second = 1000000000"

definition go_div :: "int \<Rightarrow> int \<Rightarrow> int" where
  "go_div a b = sgn a * sgn b * (\<bar>a\<bar> div \<bar>b\<bar>)"

text \<open>
  \<^verbatim>\<open>
  getTime := func(second int) string {
      return map[string]string{
          "mysql":    fmt.Sprintf("date_add(now(), interval %d second)", second),
          "postgres": fmt.Sprintf("current_timestamp + interval '%d second'", second),
      }[conf.Store.Driver]
  }
  \<close>
  Both entries denote the instant \<open>second\<close> seconds after \<^verbatim>\<open>now()\<close>. For any
  other driver the Go map yields the empty string and the statement built from it
  is not SQL.
\<close>

definition getTime :: "env \<Rightarrow> int \<Rightarrow> int option" where
  "getTime e second =
     map_of [(''mysql'', now e + second), (''postgres'', now e + second)] (Driver e)"

text \<open>SQL comparisons with a NULL operand select nothing.\<close>

definition sql_lt :: "int option \<Rightarrow> int \<Rightarrow> bool" where
  "sql_lt c x = (case c of None \<Rightarrow> False | Some t \<Rightarrow> t < x)"

definition sql_gt :: "int option \<Rightarrow> int \<Rightarrow> bool" where
  "sql_gt c x = (case c of None \<Rightarrow> False | Some t \<Rightarrow> x < t)"

text \<open>\<^verbatim>\<open>status in ('prepared', 'aborting', 'submitted')\<close>\<close>

definition status_in :: "string \<Rightarrow> bool" where
  "status_in s = (s = ''prepared'' \<or> s = ''aborting'' \<or> s = ''submitted'')"

text \<open>\<^verbatim>\<open>&storage.TransGlobalStore{}\<close>\<close>

definition zero_TransGlobalStore :: TransGlobalStore where
  "zero_TransGlobalStore =
     \<lparr>ID = 0, UpdateTime = None, Gid = [], Status = [], NextCronInterval = 0,
      NextCronTime = None, Owner = []\<rparr>"

text \<open>
  \<^verbatim>\<open>Where(p).First(dest)\<close> is \<^verbatim>\<open>WHERE p ORDER BY id LIMIT 1\<close>;
  \<open>None\<close> stands for \<^verbatim>\<open>gorm.ErrRecordNotFound\<close>.
\<close>

definition First :: "('r \<Rightarrow> nat) \<Rightarrow> ('r \<Rightarrow> bool) \<Rightarrow> 'r list \<Rightarrow> 'r option" where
  "First key p rs = (case sort_key key (filter p rs) of [] \<Rightarrow> None | r # _ \<Rightarrow> Some r)"

text \<open>
  \<^verbatim>\<open>db.Transaction(fc)\<close> commits what \<open>fc\<close> wrote when \<open>fc\<close> returns nil and
  rolls it back when \<open>fc\<close> returns an error or panics.
\<close>

definition Transaction :: "(db \<Rightarrow> error option result \<times> db) \<Rightarrow> db \<Rightarrow> error option result \<times> db" where
  "Transaction fc d =
     (case fc d of
        (Return None, d') \<Rightarrow> (Return None, d')
      | (Return (Some err), d') \<Rightarrow> (Return (Some err), d)
      | (Panic err, d') \<Rightarrow> (Panic err, d))"

section \<open>ChangeGlobalStatus\<close>

text \<open>
  \<^verbatim>\<open>
  func (s *Store) ChangeGlobalStatus(global *storage.TransGlobalStore, newStatus string,
                                     updates []string, finished bool) {
      old := global.Status
      global.Status = newStatus
      dbr := dbGet().Must().Model(global).Where("status=? and gid=?", old, global.Gid).
                 Select(updates).Updates(global)
      if dbr.RowsAffected == 0 {
          dtmimp.E2P(storage.ErrNotFound)
      }
  }
  \<close>
  The result is the outcome, the caller's record as the call leaves it, and the store.
\<close>

definition ChangeGlobalStatus ::
  "env \<Rightarrow> TransGlobalStore \<Rightarrow> string \<Rightarrow> string list \<Rightarrow> bool \<Rightarrow> db \<Rightarrow>
     unit result \<times> TransGlobalStore \<times> db" where
  "ChangeGlobalStatus e global newStatus updates finished d =
     (let old = Status global;
          global' = global\<lparr>Status := newStatus\<rparr>;
          (rowsAffected, rows') =
             sql_update e (\<lambda>r. Status r = old \<and> Gid r = Gid global' \<and> model_pk global' r) None
               (assign_cols updates global') (trans_global d);
          d' = d\<lparr>trans_global := rows'\<rparr>
      in if rowsAffected = 0 then (E2P (Some ErrNotFound), global', d')
         else (Return (), global', d'))"

section \<open>TouchCronTime\<close>

text \<open>
  \<^verbatim>\<open>
  func (s *Store) TouchCronTime(global *storage.TransGlobalStore, nextCronInterval int64,
                                nextCronTime *time.Time) {
      global.UpdateTime = dtmutil.GetNextTime(0)
      global.NextCronTime = nextCronTime
      global.NextCronInterval = nextCronInterval
      dbGet().Must().Model(global).Where("status=? and gid=?", global.Status, global.Gid).
          Select([]string{"next_cron_time", "update_time", "next_cron_interval"}).Updates(global)
  }
  \<close>
\<close>

definition TouchCronTime ::
  "env \<Rightarrow> TransGlobalStore \<Rightarrow> int \<Rightarrow> int option \<Rightarrow> db \<Rightarrow> unit result \<times> TransGlobalStore \<times> db" where
  "TouchCronTime e global nextCronInterval nextCronTime d =
     (let global' = global\<lparr>UpdateTime := GetNextTime e 0,
                            NextCronTime := nextCronTime,
                            NextCronInterval := nextCronInterval\<rparr>;
          (rowsAffected, rows') =
             sql_update e
               (\<lambda>r. Status r = Status global' \<and> Gid r = Gid global' \<and> model_pk global' r) None
               (assign_cols [''next_cron_time'', ''update_time'', ''next_cron_interval''] global')
               (trans_global d)
      in (Return (), global', d\<lparr>trans_global := rows'\<rparr>))"

section \<open>LockOneGlobalTrans\<close>

text \<open>
  \<^verbatim>\<open>
  func (s *Store) LockOneGlobalTrans(expireIn time.Duration) *storage.TransGlobalStore {
      db := dbGet()
      getTime := ...
      expire := int(expireIn / time.Second)
      whereTime := fmt.Sprintf("next_cron_time < %s", getTime(expire))
      owner := shortuuid.New()
      global := &storage.TransGlobalStore{}
      dbr := db.Must().Model(global).
          Where(whereTime + "and status in ('prepared', 'aborting', 'submitted')").
          Limit(1).
          Select([]string{"owner", "next_cron_time"}).
          Updates(&storage.TransGlobalStore{
              Owner:        owner,
              NextCronTime: dtmutil.GetNextTime(conf.RetryInterval),
          })
      if dbr.RowsAffected == 0 {
          return nil
      }
      db.Must().Where("owner=?", owner).First(global)
      return global
  }
  \<close>
  \<^verbatim>\<open>Must()\<close> panics on every error of the statement but
  \<^verbatim>\<open>gorm.ErrRecordNotFound\<close>; after that one \<open>global\<close> is still the zero
  struct.
\<close>

text \<open>The \<^verbatim>\<open>Where\<close> clause: \<^verbatim>\<open>next_cron_time < cutoff and status in (...)\<close>.\<close>

definition lock_where :: "int \<Rightarrow> TransGlobalStore \<Rightarrow> bool" where
  "lock_where cutoff r = (sql_lt (NextCronTime r) cutoff \<and> status_in (Status r))"

definition LockOneGlobalTrans :: "env \<Rightarrow> int \<Rightarrow> db \<Rightarrow> TransGlobalStore option result \<times> db" where
  "LockOneGlobalTrans e expireIn d =
     (let expire = go_div expireIn time_Second;
          owner = uuid e;
          global = zero_TransGlobalStore
      in case getTime e expire of
           None \<Rightarrow> (Panic ErrSQL, d)
         | Some cutoff \<Rightarrow>
             (let (rowsAffected, rows') =
                    sql_update e (lock_where cutoff) (Some 1)
                      (assign_cols [''owner'', ''next_cron_time'']
                         (zero_TransGlobalStore\<lparr>Owner := owner,
                            NextCronTime := GetNextTime e (RetryInterval e)\<rparr>))
                      (trans_global d);
                  d' = d\<lparr>trans_global := rows'\<rparr>
              in if rowsAffected = 0 then (Return None, d')
                 else (case First ID (\<lambda>r. Owner r = owner) rows' of
                         None \<Rightarrow> (Return (Some global), d')
                       | Some g \<Rightarrow> (Return (Some g), d'))))"

section \<open>ResetCronTime\<close>

text \<open>
  \<^verbatim>\<open>
  func (s *Store) ResetCronTime(timeout time.Duration, limit int64)
          (succeedCount int64, hasRemaining bool, err error) {
      db := dbGet()
      getTime := ...
      timeoutSecond := int(timeout / time.Second)
      whereTime := fmt.Sprintf("next_cron_time > %s", getTime(timeoutSecond))
      global := &storage.TransGlobalStore{}
      dbr := db.Must().Model(global).
          Where(whereTime + "and status in ('prepared', 'aborting', 'submitted')").
          Limit(int(limit)).
          Select([]string{"next_cron_time"}).
          Updates(&storage.TransGlobalStore{
              NextCronTime: dtmutil.GetNextTime(0),
          })
      succeedCount = dbr.RowsAffected
      if succeedCount == limit {
          var count int64
          db.Must().Model(global).Where(whereTime + "and status in (...)").Limit(1).Count(&count)
          if count > 0 {
              hasRemaining = true
          }
      }
      return succeedCount, hasRemaining, dbr.Error
  }
  \<close>
  \<^verbatim>\<open>Count\<close> is \<^verbatim>\<open>SELECT count(*) ... LIMIT 1\<close>: the limit bounds the one
  result row, the count is over all rows that match.
\<close>

definition sql_count :: "('r \<Rightarrow> bool) \<Rightarrow> 'r list \<Rightarrow> int" where
  "sql_count p rs = int (length (filter p rs))"

text \<open>The \<^verbatim>\<open>Where\<close> clause: \<^verbatim>\<open>next_cron_time > t and status in (...)\<close>.\<close>

definition reset_where :: "int \<Rightarrow> TransGlobalStore \<Rightarrow> bool" where
  "reset_where t r = (sql_gt (NextCronTime r) t \<and> status_in (Status r))"

definition ResetCronTime :: "env \<Rightarrow> int \<Rightarrow> int \<Rightarrow> db \<Rightarrow> (int \<times> bool \<times> error option) result \<times> db" where
  "ResetCronTime e timeout limit d =
     (let timeoutSecond = go_div timeout time_Second
      in case getTime e timeoutSecond of
           None \<Rightarrow> (Panic ErrSQL, d)
         | Some t \<Rightarrow>
             (let (succeedCount, rows') =
                    sql_update e (reset_where t) (Some limit)
                      (assign_cols [''next_cron_time'']
                         (zero_TransGlobalStore\<lparr>NextCronTime := GetNextTime e 0\<rparr>))
                      (trans_global d);
                  hasRemaining = (succeedCount = limit \<and> 0 < sql_count (reset_where t) rows')
              in (Return (succeedCount, hasRemaining, None), d\<lparr>trans_global := rows'\<rparr>)))"

section \<open>ScanTransGlobalStores\<close>

text \<open>
  The cursor is text: the empty string, or a row id as \<^verbatim>\<open>fmt.Sprintf("%d", id)\<close>
  prints it.
\<close>

fun Sprintf_d :: "nat \<Rightarrow> string" where
  "Sprintf_d n =
     (if n < 10 then [char_of (48 + n)]
      else Sprintf_d (n div 10) @ [char_of (48 + n mod 10)])"

declare Sprintf_d.simps [simp del]

definition digit_of :: "char \<Rightarrow> nat option" where
  "digit_of c =
     (let k = (of_char c :: nat) in if 48 \<le> k \<and> k \<le> 57 then Some (k - 48) else None)"

fun parse_digits :: "nat \<Rightarrow> string \<Rightarrow> nat option" where
  "parse_digits acc [] = Some acc"
| "parse_digits acc (c # cs) =
     (case digit_of c of None \<Rightarrow> None | Some k \<Rightarrow> parse_digits (acc * 10 + k) cs)"

definition MaxInt64 :: int where
  "MaxInt64 = 9223372036854775807"

text \<open>
  \<^verbatim>\<open>strconv.Atoi\<close>: an optional sign, then decimal digits, at least one; the
  value has to fit Go's 64-bit \<^verbatim>\<open>int\<close>.
\<close>

definition Atoi :: "string \<Rightarrow> int option" where
  "Atoi s =
     (let (neg, ds) =
            (case s of
               [] \<Rightarrow> (False, [])
             | c # cs \<Rightarrow>
                 if c = CHR ''-'' then (True, cs)
                 else if c = CHR ''+'' then (False, cs)
                 else (False, s))
      in if ds = [] then None
         else (case parse_digits 0 ds of
                 None \<Rightarrow> None
               | Some n \<Rightarrow>
                   (let v = (if neg then - int n else int n)
                    in if - MaxInt64 - 1 \<le> v \<and> v \<le> MaxInt64 then Some v else None)))"

text \<open>
  Modelled from the spec: \<^verbatim>\<open>dtmimp.MustAtoi\<close> is not in \<^verbatim>\<open>sql.go\<close>; the
  cursor of the specification is a row id, so the helper reads the decimal text of
  one and, as its name says, panics on anything else.
\<close>

definition MustAtoi :: "string \<Rightarrow> int result" where
  "MustAtoi s = (case Atoi s of None \<Rightarrow> Panic ErrAtoi | Some n \<Rightarrow> Return n)"

text \<open>\<^verbatim>\<open>Order("id desc")\<close>\<close>

definition order_id_desc :: "TransGlobalStore list \<Rightarrow> TransGlobalStore list" where
  "order_id_desc rs = rev (sort_key ID rs)"

text \<open>
  \<^verbatim>\<open>
  func (s *Store) ScanTransGlobalStores(position *string, limit int64) []storage.TransGlobalStore {
      globals := []storage.TransGlobalStore{}
      lid := math.MaxInt64
      if *position != "" {
          lid = dtmimp.MustAtoi(*position)
      }
      dbr := dbGet().Must().Where("id < ?", lid).Order("id desc").Limit(int(limit)).Find(&globals)
      if dbr.RowsAffected < limit {
          *position = ""
      } else {
          *position = fmt.Sprintf("%d", globals[len(globals)-1].ID)
      }
      return globals
  }
  \<close>
  The result is the outcome and \<^verbatim>\<open>*position\<close> as the call leaves it. After
  \<^verbatim>\<open>Find\<close>, \<^verbatim>\<open>RowsAffected\<close> is the number of rows read.
\<close>

definition ScanTransGlobalStores :: "string \<Rightarrow> int \<Rightarrow> db \<Rightarrow> TransGlobalStore list result \<times> string" where
  "ScanTransGlobalStores position limit d =
     (case (if position \<noteq> [] then MustAtoi position else Return MaxInt64) of
        Panic err \<Rightarrow> (Panic err, position)
      | Return lid \<Rightarrow>
          (let globals =
                 sql_limit (Some limit)
                   (order_id_desc (filter (\<lambda>r. int (ID r) < lid) (trans_global d)))
           in if int (length globals) < limit then (Return globals, [])
              else if globals = [] then (Panic ErrIndex, position)
              else (Return globals, Sprintf_d (ID (last globals)))))"

text \<open>
  A caller that lists the whole table calls \<^verbatim>\<open>ScanTransGlobalStores\<close> with the
  cursor of the call before, until the cursor comes back empty. \<open>None\<close>: the
  calls allowed by the fuel did not end the listing.
\<close>

fun scan_all :: "nat \<Rightarrow> string \<Rightarrow> int \<Rightarrow> db \<Rightarrow> TransGlobalStore list list result option" where
  "scan_all 0 position limit d = None"
| "scan_all (Suc fuel) position limit d =
     (case ScanTransGlobalStores position limit d of
        (Panic err, position') \<Rightarrow> Some (Panic err)
      | (Return globals, position') \<Rightarrow>
          if position' = [] then Some (Return [globals])
          else (case scan_all fuel position' limit d of
                  None \<Rightarrow> None
                | Some (Panic err) \<Rightarrow> Some (Panic err)
                | Some (Return pages) \<Rightarrow> Some (Return (globals # pages))))"

section \<open>MaySaveNewTrans\<close>

text \<open>
  Modelled from the spec: the schema is not in \<^verbatim>\<open>sql.go\<close>. The store assigns
  \<open>id\<close>, increasing; \<open>gid\<close> is unique among the rows of \<^verbatim>\<open>trans_global\<close>; the
  natural key of a branch row is \<open>(gid, branchId, op)\<close>.
  \<^verbatim>\<open>Clauses(clause.OnConflict{DoNothing: true}).Create(v)\<close> inserts the rows of
  \<open>v\<close> whose key is not in the table yet, one after the other, and counts them.
\<close>

definition next_id :: "nat list \<Rightarrow> nat" where
  "next_id ids = Suc (fold max ids 0)"

definition bkey :: "TransBranchStore \<Rightarrow> string \<times> string \<times> string" where
  "bkey b = (bGid b, BranchID b, Op b)"

definition Create_global :: "TransGlobalStore \<Rightarrow> TransGlobalStore list \<Rightarrow> int \<times> TransGlobalStore list" where
  "Create_global g rows =
     (if Gid g \<in> set (map Gid rows) then (0, rows)
      else (1, rows @ [g\<lparr>ID := next_id (map ID rows)\<rparr>]))"

fun Create_branches :: "TransBranchStore list \<Rightarrow> TransBranchStore list \<Rightarrow> TransBranchStore list" where
  "Create_branches [] rows = rows"
| "Create_branches (b # bs) rows =
     Create_branches bs
       (if bkey b \<in> set (map bkey rows) then rows
        else rows @ [b\<lparr>bID := next_id (map bID rows)\<rparr>])"

text \<open>
  \<^verbatim>\<open>
  func (s *Store) MaySaveNewTrans(global *storage.TransGlobalStore,
                                  branches []storage.TransBranchStore) error {
      return dbGet().Transaction(func(db1 *gorm.DB) error {
          db := &dtmutil.DB{DB: db1}
          dbr := db.Must().Clauses(clause.OnConflict{
              DoNothing: true,
          }).Create(global)
          if dbr.RowsAffected <= 0 {
              return storage.ErrUniqueConflict
          }
          if len(branches) > 0 {
              db.Must().Clauses(clause.OnConflict{
                  DoNothing: true,
              }).Create(&branches)
          }
          return nil
      })
  }
  \<close>
\<close>

definition MaySaveNewTrans :: "TransGlobalStore \<Rightarrow> TransBranchStore list \<Rightarrow> db \<Rightarrow> error option result \<times> db" where
  "MaySaveNewTrans global branches d =
     Transaction
       (\<lambda>db1.
          let (rowsAffected, rows') = Create_global global (trans_global db1);
              db2 = db1\<lparr>trans_global := rows'\<rparr>
          in if rowsAffected \<le> 0 then (Return (Some ErrUniqueConflict), db2)
             else if length branches > 0
               then (Return None,
                     db2\<lparr>trans_branch_op := Create_branches branches (trans_branch_op db2)\<rparr>)
               else (Return None, db2))
       d"

section \<open>LockGlobalSaveBranches\<close>

text \<open>
  Modelled from the spec: the schema is not in \<^verbatim>\<open>sql.go\<close>; with the unique key
  \<open>(gid, branchId, op)\<close>, \<^verbatim>\<open>tx.Save(branches)\<close> is the upsert of the
  specification: a row whose key is in the table overwrites the columns of that row
  and keeps its \<open>id\<close>, any other row is inserted.
\<close>

fun Save :: "TransBranchStore list \<Rightarrow> TransBranchStore list \<Rightarrow> TransBranchStore list" where
  "Save [] rows = rows"
| "Save (b # bs) rows =
     Save bs
       (if bkey b \<in> set (map bkey rows)
        then map (\<lambda>r. if bkey r = bkey b then b\<lparr>bID := bID r\<rparr> else r) rows
        else rows @ [b\<lparr>bID := next_id (map bID rows)\<rparr>])"

text \<open>
  gorm refuses an empty slice: \<^verbatim>\<open>tx.Save\<close> then sends no statement and its
  \<^verbatim>\<open>Error\<close> is \<^verbatim>\<open>gorm.ErrEmptySlice\<close>. The call is made without
  \<^verbatim>\<open>Must()\<close>, so the error is in the result.
\<close>

definition tx_Save :: "TransBranchStore list \<Rightarrow> TransBranchStore list \<Rightarrow> error option \<times> TransBranchStore list" where
  "tx_Save branches rows =
     (if branches = [] then (Some ErrEmptySlice, rows) else (None, Save branches rows))"

text \<open>
  \<^verbatim>\<open>
  func wrapError(err error) error {
      if err == gorm.ErrRecordNotFound {
          return storage.ErrNotFound
      }
      dtmimp.E2P(err)
      return err
  }
  \<close>
\<close>

definition wrapError :: "error option \<Rightarrow> error option result" where
  "wrapError err =
     (if err = Some ErrRecordNotFound then Return (Some ErrNotFound)
      else (case E2P err of Panic e \<Rightarrow> Panic e | Return u \<Rightarrow> Return err))"

text \<open>
  What a transaction sends to the engine, in order: \<^verbatim>\<open>BEGIN\<close>, the statements
  of its body, then \<^verbatim>\<open>COMMIT\<close> or \<^verbatim>\<open>ROLLBACK\<close>.
  \<open>SelectForUpdate\<close> is the \<^verbatim>\<open>SELECT ... FOR UPDATE\<close> with the \<open>id\<close> of the row
  it found and locked, if it found one; the engine holds that lock until the
  transaction commits or rolls back. \<open>SaveBranches\<close> is the write of the given
  branches.
\<close>

datatype event =
  Begin
  | SelectForUpdate "nat option"
  | SaveBranches "TransBranchStore list"
  | Commit
  | Rollback

text \<open>
  \<^verbatim>\<open>db.Transaction(fc)\<close> as in \<open>Transaction\<close>, with the statements on record:
  what \<open>fc\<close> wrote is committed when \<open>fc\<close> returns nil and rolled back when it
  returns an error or panics.
\<close>

definition Transaction_log ::
  "(db \<Rightarrow> error option result \<times> db \<times> event list) \<Rightarrow> db \<Rightarrow> error option result \<times> db \<times> event list" where
  "Transaction_log fc d =
     (case fc d of
        (Return None, d', evs) \<Rightarrow> (Return None, d', Begin # evs @ [Commit])
      | (Return (Some err), d', evs) \<Rightarrow> (Return (Some err), d, Begin # evs @ [Rollback])
      | (Panic err, d', evs) \<Rightarrow> (Panic err, d, Begin # evs @ [Rollback]))"

text \<open>
  \<^verbatim>\<open>
  func (s *Store) LockGlobalSaveBranches(gid string, status string,
                                         branches []storage.TransBranchStore, branchStart int) {
      err := dbGet().Transaction(func(tx *gorm.DB) error {
          g := &storage.TransGlobalStore{}
          dbr := tx.Clauses(clause.Locking{Strength: "UPDATE"}).Model(g).
                     Where("gid=? and status=?", gid, status).First(g)
          if dbr.Error == nil {
              dbr = tx.Save(branches)
          }
          return wrapError(dbr.Error)
      })
      dtmimp.E2P(err)
  }
  \<close>
  The result is the outcome, the store, and the statements the transaction sent.
\<close>

definition LockGlobalSaveBranches ::
  "string \<Rightarrow> string \<Rightarrow> TransBranchStore list \<Rightarrow> int \<Rightarrow> db \<Rightarrow> unit result \<times> db \<times> event list" where
  "LockGlobalSaveBranches gid status branches branchStart d =
     (case Transaction_log
             (\<lambda>tx.
                let g = First ID (\<lambda>g. Gid g = gid \<and> Status g = status) (trans_global tx);
                    dbrError = (case g of None \<Rightarrow> Some ErrRecordNotFound | Some g' \<Rightarrow> None);
                    sent = [SelectForUpdate (map_option ID g)]
                in if dbrError = None
                   then (let (saveError, rows') = tx_Save branches (trans_branch_op tx)
                         in (wrapError saveError,
                             tx\<lparr>trans_branch_op := rows'\<rparr>,
                             sent @ (if saveError = None then [SaveBranches branches] else [])))
                   else (wrapError dbrError, tx, sent))
             d of
        (Panic e, d', sent) \<Rightarrow> (Panic e, d', sent)
      | (Return err, d', sent) \<Rightarrow> (E2P err, d', sent))"

section \<open>The specification's words, for comparison with the code\<close>

text \<open>
  The backoff governor of the specification resets the rows with a status in
  \<open>{prepared, aborting, submitted}\<close> and \<^verbatim>\<open>nextCronTime > now() + ceiling\<close>. The
  ceiling is a \<^verbatim>\<open>time.Duration\<close>, so the comparison is made in nanoseconds.
\<close>

definition spec_overdue :: "env \<Rightarrow> int \<Rightarrow> TransGlobalStore \<Rightarrow> bool" where
  "spec_overdue e ceiling r =
     ((case NextCronTime r of
         None \<Rightarrow> False
       | Some t \<Rightarrow> now e * time_Second + ceiling < t * time_Second)
      \<and> Status r \<in> {''prepared'', ''aborting'', ''submitted''})"

section \<open>Concrete rows for instances\<close>

text \<open>Rows, stores and an environment on which the operations are run below.\<close>

definition mk_global :: "nat \<Rightarrow> string \<Rightarrow> string \<Rightarrow> int option \<Rightarrow> TransGlobalStore" where
  "mk_global i g s t =
     \<lparr>ID = i, UpdateTime = None, Gid = g, Status = s, NextCronInterval = 0,
      NextCronTime = t, Owner = []\<rparr>"

definition mk_branch :: "nat \<Rightarrow> string \<Rightarrow> string \<Rightarrow> string \<Rightarrow> TransBranchStore" where
  "mk_branch i g b o' = \<lparr>bID = i, bGid = g, BranchID = b, Op = o', bStatus = ''prepared''\<rparr>"

definition ex_env :: env where
  "ex_env =
     \<lparr>Driver = ''mysql'', ClientFoundRows = False, RetryInterval = 10, now = 1000, uuid = ''tok''\<rparr>"

definition ex_env_pg :: env where
  "ex_env_pg = ex_env\<lparr>Driver := ''postgres''\<rparr>"

definition ex_rows :: "TransGlobalStore list" where
  "ex_rows =
     [mk_global 1 ''g1'' ''succeed'' (Some 5),
      mk_global 2 ''g2'' ''prepared'' (Some 900),
      mk_global 3 ''g3'' ''submitted'' (Some 950)]"

definition ex_backoff :: "TransGlobalStore list" where
  "ex_backoff =
     [mk_global 1 ''g1'' ''prepared'' (Some 37000),
      mk_global 2 ''g2'' ''prepared'' (Some 1500),
      mk_global 3 ''g3'' ''submitted'' (Some 8200)]"

definition ex_store :: db where
  "ex_store =
     \<lparr>trans_global = [mk_global 1 ''g1'' ''prepared'' None],
      trans_branch_op = [mk_branch 1 ''g1'' ''01'' ''action'']\<rparr>"

definition ex_store' :: db where
  "ex_store' =
     \<lparr>trans_global = [mk_global 1 ''g1'' ''prepared'' None, mk_global 2 ''g2'' ''prepared'' None],
      trans_branch_op =
        [mk_branch 1 ''g1'' ''01'' ''action'',
         mk_branch 2 ''g2'' ''01'' ''action'',
         mk_branch 3 ''g2'' ''01'' ''compensate'']\<rparr>"

definition ex_table :: db where
  "ex_table =
     \<lparr>trans_global =
        [mk_global 2 ''g2'' ''succeed'' None,
         mk_global 3 ''g3'' ''prepared'' None,
         mk_global 1 ''g1'' ''failed'' None],
      trans_branch_op = []\<rparr>"

section \<open>Updates: rows rewritten and rows affected\<close>

lemma map_unchanged: "\<forall>r\<in>set rs. \<not> p r \<Longrightarrow> map (\<lambda>r. if p r then f r else r) rs = rs"
  by (induction rs) auto

lemma update_limit_none: "\<forall>r\<in>set rs. \<not> p r \<Longrightarrow> update_limit n p f rs = rs"
  by (induction n p f rs rule: update_limit.induct) auto

lemma length_update_limit [simp]: "length (update_limit n p f rs) = length rs"
  by (induction n p f rs rule: update_limit.induct) auto

lemma update_bound_pos: "update_bound e lim = Some n \<Longrightarrow> 0 < n"
  by (auto simp: update_bound_def split: option.splits if_splits)

lemma changed_none:
  "length rs' = length rs \<Longrightarrow>
     (length (filter (\<lambda>(r, r'). r' \<noteq> r) (zip rs rs')) = 0) = (rs' = rs)"
  by (induction rs' rs rule: list_induct2) auto

lemma sql_update_rows:
  "snd (sql_update e p lim f rs) =
     (case update_bound e lim of
        None \<Rightarrow> map (\<lambda>r. if p r then f r else r) rs
      | Some n \<Rightarrow> update_limit n p f rs)"
  by (simp add: sql_update_def Let_def update_all_def split: option.splits)

lemma length_sql_update [simp]: "length (snd (sql_update e p lim f rs)) = length rs"
  by (simp add: sql_update_rows split: option.splits)

lemma sql_update_affected:
  "fst (sql_update e p lim f rs) =
     (if counts_changed e
      then int (length (filter (\<lambda>(r, r'). r' \<noteq> r) (zip rs (snd (sql_update e p lim f rs)))))
      else int (length (case update_bound e lim of
                          None \<Rightarrow> filter p rs
                        | Some n \<Rightarrow> take n (filter p rs))))"
  by (simp add: sql_update_def Let_def update_all_def)

lemma sql_update_zero:
  "(fst (sql_update e p lim f rs) = 0) =
     (if counts_changed e then snd (sql_update e p lim f rs) = rs
      else \<forall>r\<in>set rs. \<not> p r)"
proof (cases "counts_changed e")
  case True
  then show ?thesis
    using changed_none[of "snd (sql_update e p lim f rs)" rs]
    by (simp add: sql_update_affected)
next
  case False
  show ?thesis
  proof (cases "update_bound e lim")
    case None
    with False show ?thesis by (simp add: sql_update_affected filter_empty_conv)
  next
    case (Some n)
    from update_bound_pos[OF Some]
    have "(length (take n (filter p rs)) = 0) = (\<forall>r\<in>set rs. \<not> p r)"
      by (cases "filter p rs") (auto simp: filter_empty_conv)
    with False Some show ?thesis by (simp add: sql_update_affected del: length_take)
  qed
qed

lemma sql_update_no_match:
  assumes "\<forall>r\<in>set rs. \<not> p r"
  shows "sql_update e p lim f rs = (0, rs)"
proof -
  have r: "snd (sql_update e p lim f rs) = rs"
    using assms by (simp add: sql_update_rows map_unchanged update_limit_none split: option.splits)
  have "fst (sql_update e p lim f rs) = 0"
    using assms r by (simp add: sql_update_zero)
  with r show ?thesis by (simp add: prod_eq_iff)
qed

lemma Status_assign_cols:
  "''status'' \<in> set cols \<Longrightarrow> Status (assign_cols cols v r) = Status v"
proof -
  have "Status (fold (assign_col v) cs r) =
          (if ''status'' \<in> set cs \<or> ''Status'' \<in> set cs then Status v else Status r)" for cs r
    by (induction cs arbitrary: r) (auto simp: assign_col_def)
  then show "''status'' \<in> set cols \<Longrightarrow> Status (assign_cols cols v r) = Status v"
    by (auto simp: assign_cols_def assign_all_def)
qed

lemma touch_assign:
  "assign_cols [''next_cron_time'', ''update_time'', ''next_cron_interval''] v r =
     r\<lparr>NextCronTime := NextCronTime v, UpdateTime := UpdateTime v,
       NextCronInterval := NextCronInterval v\<rparr>"
  by (simp add: assign_cols_def assign_col_def)

section \<open>ChangeGlobalStatus: compare and swap\<close>

lemma ChangeGlobalStatus_eq:
  "ChangeGlobalStatus e global newStatus updates finished d =
     (let upd = sql_update e
                  (\<lambda>r. Status r = Status global \<and> Gid r = Gid global \<and> model_pk global r) None
                  (assign_cols updates (global\<lparr>Status := newStatus\<rparr>)) (trans_global d)
      in (if fst upd = 0 then Panic ErrNotFound else Return (),
          global\<lparr>Status := newStatus\<rparr>,
          d\<lparr>trans_global := snd upd\<rparr>))"
proof -
  have "model_pk (global\<lparr>Status := newStatus\<rparr>) = model_pk global"
    by (rule ext) (simp add: model_pk_def)
  then show ?thesis
    by (simp add: ChangeGlobalStatus_def Let_def E2P_def split_beta)
qed

text \<open>
  C1, as the code has it. \<^verbatim>\<open>ChangeGlobalStatus\<close> issues one update over the rows
  whose \<open>status\<close> is the status the record had on entry and whose \<open>gid\<close> is the
  record's, and, when the record carries an \<open>id\<close> other than zero, whose \<open>id\<close>
  is the record's. Each such row receives the columns selected by \<open>updates\<close> from
  the record, every other row is left as it is. The call panics with
  \<^verbatim>\<open>ErrNotFound\<close> or returns; it panics exactly when the update reports no
  affected row, that is, when no row was changed where MySQL counts changed rows,
  and when no row was matched otherwise. When no row is matched it panics in either
  case and the store is as it was. The status of the matched rows becomes the new
  status when \<open>updates\<close> names the column \<open>status\<close>.
\<close>

theorem ChangeGlobalStatus_cas:
  assumes run: "ChangeGlobalStatus e global newStatus updates finished d = (res, global', d')"
  shows "trans_global d' =
           map (\<lambda>r. if Status r = Status global \<and> Gid r = Gid global \<and> model_pk global r
                     then assign_cols updates (global\<lparr>Status := newStatus\<rparr>) r else r)
               (trans_global d)
       \<and> (res = Panic ErrNotFound \<or> res = Return ())
       \<and> ((res = Panic ErrNotFound) =
            (if counts_changed e then trans_global d' = trans_global d
             else \<forall>r\<in>set (trans_global d).
                    \<not> (Status r = Status global \<and> Gid r = Gid global \<and> model_pk global r)))
       \<and> ((\<forall>r\<in>set (trans_global d).
              \<not> (Status r = Status global \<and> Gid r = Gid global \<and> model_pk global r))
            \<longrightarrow> res = Panic ErrNotFound \<and> d' = d)
       \<and> (''status'' \<in> set updates \<longrightarrow>
           (\<forall>i<length (trans_global d).
              Status (trans_global d ! i) = Status global \<and> Gid (trans_global d ! i) = Gid global
                \<and> model_pk global (trans_global d ! i) \<longrightarrow>
              Status (trans_global d' ! i) = newStatus))"
proof -
  let ?p = "\<lambda>r. Status r = Status global \<and> Gid r = Gid global \<and> model_pk global r"
  let ?f = "assign_cols updates (global\<lparr>Status := newStatus\<rparr>)"
  let ?upd = "sql_update e ?p None ?f (trans_global d)"
  from run have "(if fst ?upd = 0 then Panic ErrNotFound else Return (),
                  global\<lparr>Status := newStatus\<rparr>, d\<lparr>trans_global := snd ?upd\<rparr>) = (res, global', d')"
    unfolding ChangeGlobalStatus_eq Let_def .
  then have res: "res = (if fst ?upd = 0 then Panic ErrNotFound else Return ())"
    and d': "d' = d\<lparr>trans_global := snd ?upd\<rparr>"
    by blast+
  have rows: "trans_global d' = map (\<lambda>r. if ?p r then ?f r else r) (trans_global d)"
    using d' by (simp add: sql_update_rows update_bound_def)
  have z: "(fst ?upd = 0) =
             (if counts_changed e then trans_global d' = trans_global d
              else \<forall>r\<in>set (trans_global d). \<not> ?p r)"
    using d' by (simp add: sql_update_zero)
  have a: "res = Panic ErrNotFound \<or> res = Return ()" using res by simp
  have b: "(res = Panic ErrNotFound) =
             (if counts_changed e then trans_global d' = trans_global d
              else \<forall>r\<in>set (trans_global d). \<not> ?p r)"
    unfolding z[symmetric] using res by simp
  have c: "(\<forall>r\<in>set (trans_global d). \<not> ?p r) \<longrightarrow> res = Panic ErrNotFound \<and> d' = d"
  proof
    assume n: "\<forall>r\<in>set (trans_global d). \<not> ?p r"
    from sql_update_no_match[OF n, of e None ?f] res d'
    show "res = Panic ErrNotFound \<and> d' = d" by simp
  qed
  have s: "''status'' \<in> set updates \<longrightarrow>
           (\<forall>i<length (trans_global d). ?p (trans_global d ! i) \<longrightarrow>
              Status (trans_global d' ! i) = newStatus)"
    unfolding rows by (simp add: Status_assign_cols)
  from rows a b c s show ?thesis by blast
qed

text \<open>
  C9. The record the caller passed comes back with its status overwritten by the
  new status and nothing else changed, whatever the outcome of the update: also
  when the call panics with \<^verbatim>\<open>ErrNotFound\<close>, in which case the store is as it
  was, so that the caller's record then carries a status no stored row was given
  by this call.
\<close>

theorem ChangeGlobalStatus_memory:
  assumes run: "ChangeGlobalStatus e global newStatus updates finished d = (res, global', d')"
  shows "global' = global\<lparr>Status := newStatus\<rparr>
       \<and> (res = Panic ErrNotFound \<longrightarrow> d' = d \<and> Status global' = newStatus)"
proof -
  let ?p = "\<lambda>r. Status r = Status global \<and> Gid r = Gid global \<and> model_pk global r"
  let ?f = "assign_cols updates (global\<lparr>Status := newStatus\<rparr>)"
  let ?upd = "sql_update e ?p None ?f (trans_global d)"
  from run have "(if fst ?upd = 0 then Panic ErrNotFound else Return (),
                  global\<lparr>Status := newStatus\<rparr>, d\<lparr>trans_global := snd ?upd\<rparr>) = (res, global', d')"
    unfolding ChangeGlobalStatus_eq Let_def .
  then have res: "res = (if fst ?upd = 0 then Panic ErrNotFound else Return ())"
    and g: "global' = global\<lparr>Status := newStatus\<rparr>"
    and d': "d' = d\<lparr>trans_global := snd ?upd\<rparr>"
    by blast+
  have "d' = d" if "res = Panic ErrNotFound"
  proof -
    from that res have z: "fst ?upd = 0" by (simp split: if_splits)
    have "snd ?upd = trans_global d"
    proof (cases "counts_changed e")
      case True
      with z show ?thesis by (simp add: sql_update_zero)
    next
      case False
      with z have "\<forall>r\<in>set (trans_global d). \<not> ?p r" by (simp add: sql_update_zero)
      from sql_update_no_match[OF this, of e None ?f] show ?thesis by simp
    qed
    with d' show ?thesis by simp
  qed
  with g show ?thesis by simp
qed

lemmas update_eval =
  sql_update_def update_bound_def counts_changed_def update_all_def assign_cols_def
  assign_col_def model_pk_def ex_env_def ex_env_pg_def mk_global_def Let_def

theorem ChangeGlobalStatus_cas_witness:
  "ChangeGlobalStatus ex_env (mk_global 1 ''g1'' ''prepared'' None) ''succeed''
      [''status'', ''update_time''] False
      \<lparr>trans_global = [mk_global 1 ''g1'' ''prepared'' None, mk_global 2 ''g2'' ''prepared'' None],
       trans_branch_op = []\<rparr>
    = (Return (), mk_global 1 ''g1'' ''succeed'' None,
       \<lparr>trans_global = [mk_global 1 ''g1'' ''succeed'' None, mk_global 2 ''g2'' ''prepared'' None],
        trans_branch_op = []\<rparr>)
   \<and> Status ([mk_global 1 ''g1'' ''succeed'' None, mk_global 2 ''g2'' ''prepared'' None] ! 0)
       = ''succeed''
   \<and> ChangeGlobalStatus ex_env (mk_global 1 ''g1'' ''prepared'' None) ''succeed''
      [''status'', ''update_time''] False
      \<lparr>trans_global = [mk_global 1 ''g1'' ''aborting'' None], trans_branch_op = []\<rparr>
    = (Panic ErrNotFound, mk_global 1 ''g1'' ''succeed'' None,
       \<lparr>trans_global = [mk_global 1 ''g1'' ''aborting'' None], trans_branch_op = []\<rparr>)"
proof -
  let ?d = "\<lparr>trans_global = [mk_global 1 ''g1'' ''prepared'' None, mk_global 2 ''g2'' ''prepared'' None],
             trans_branch_op = []\<rparr>"
  let ?d' = "\<lparr>trans_global = [mk_global 1 ''g1'' ''succeed'' None, mk_global 2 ''g2'' ''prepared'' None],
              trans_branch_op = []\<rparr>"
  have h: "ChangeGlobalStatus ex_env (mk_global 1 ''g1'' ''prepared'' None) ''succeed''
             [''status'', ''update_time''] False ?d
             = (Return (), mk_global 1 ''g1'' ''succeed'' None, ?d')"
    by (simp add: ChangeGlobalStatus_def E2P_def update_eval)
  from ChangeGlobalStatus_cas[OF h] have one: "Status (trans_global ?d' ! 0) = ''succeed''"
    by (simp add: mk_global_def model_pk_def)
  let ?n = "\<lparr>trans_global = [mk_global 1 ''g1'' ''aborting'' None], trans_branch_op = []\<rparr>"
  obtain res global' d' where
    h2: "ChangeGlobalStatus ex_env (mk_global 1 ''g1'' ''prepared'' None) ''succeed''
          [''status'', ''update_time''] False ?n = (res, global', d')"
    by (cases "ChangeGlobalStatus ex_env (mk_global 1 ''g1'' ''prepared'' None) ''succeed''
          [''status'', ''update_time''] False ?n") auto
  have g: "global' = mk_global 1 ''g1'' ''succeed'' None"
    using h2 by (simp add: ChangeGlobalStatus_eq Let_def mk_global_def)
  from ChangeGlobalStatus_cas[OF h2] have "res = Panic ErrNotFound \<and> d' = ?n"
    by (simp add: mk_global_def)
  with h h2 g one show ?thesis by simp
qed

text \<open>
  C1 as the specification words it has the status of a matched row become the new
  status whenever the call succeeds. The columns written are the caller's
  \<open>updates\<close>: with \<open>updates = ["update_time"]\<close> the row matches, the update
  changes it, the call returns, and the row keeps the status \<open>prepared\<close>.
\<close>

theorem ChangeGlobalStatus_status_counterexample:
  "ChangeGlobalStatus ex_env ((mk_global 1 ''g1'' ''prepared'' None)\<lparr>UpdateTime := Some 990\<rparr>)
      ''succeed'' [''update_time''] False
      \<lparr>trans_global = [mk_global 1 ''g1'' ''prepared'' None], trans_branch_op = []\<rparr>
    = (Return (), (mk_global 1 ''g1'' ''succeed'' None)\<lparr>UpdateTime := Some 990\<rparr>,
       \<lparr>trans_global = [(mk_global 1 ''g1'' ''prepared'' None)\<lparr>UpdateTime := Some 990\<rparr>],
        trans_branch_op = []\<rparr>)"
  by (simp add: ChangeGlobalStatus_def E2P_def update_eval)

theorem ChangeGlobalStatus_memory_witness:
  "ChangeGlobalStatus ex_env (mk_global 1 ''g1'' ''prepared'' None) ''succeed''
      [''status'', ''update_time''] False
      \<lparr>trans_global = [mk_global 1 ''g1'' ''aborting'' None], trans_branch_op = []\<rparr>
    = (Panic ErrNotFound, mk_global 1 ''g1'' ''succeed'' None,
       \<lparr>trans_global = [mk_global 1 ''g1'' ''aborting'' None], trans_branch_op = []\<rparr>)"
proof -
  let ?d = "\<lparr>trans_global = [mk_global 1 ''g1'' ''aborting'' None], trans_branch_op = []\<rparr>"
  obtain res global' d' where
    h: "ChangeGlobalStatus ex_env (mk_global 1 ''g1'' ''prepared'' None) ''succeed''
          [''status'', ''update_time''] False ?d = (res, global', d')"
    by (cases "ChangeGlobalStatus ex_env (mk_global 1 ''g1'' ''prepared'' None) ''succeed''
          [''status'', ''update_time''] False ?d") auto
  have r: "res = Panic ErrNotFound"
    using h by (simp add: ChangeGlobalStatus_def E2P_def update_eval)
  from ChangeGlobalStatus_memory[OF h] r
  have "global' = mk_global 1 ''g1'' ''succeed'' None" and "d' = ?d"
    by (simp_all add: mk_global_def)
  with h r show ?thesis by simp
qed

section \<open>TouchCronTime: the heartbeat\<close>

lemma TouchCronTime_eq:
  "TouchCronTime e global nextCronInterval nextCronTime d =
     (Return (),
      global\<lparr>UpdateTime := Some (now e), NextCronTime := nextCronTime,
             NextCronInterval := nextCronInterval\<rparr>,
      d\<lparr>trans_global :=
           map (\<lambda>r. if Status r = Status global \<and> Gid r = Gid global \<and> model_pk global r
                     then r\<lparr>NextCronTime := nextCronTime, UpdateTime := Some (now e),
                            NextCronInterval := nextCronInterval\<rparr>
                     else r)
               (trans_global d)\<rparr>)"
proof -
  let ?g = "global\<lparr>UpdateTime := GetNextTime e 0, NextCronTime := nextCronTime,
                    NextCronInterval := nextCronInterval\<rparr>"
  have pk: "model_pk (global\<lparr>UpdateTime := u, NextCronTime := nextCronTime,
                    NextCronInterval := nextCronInterval\<rparr>) r = model_pk global r" for u r
    by (simp add: model_pk_def)
  have "snd (sql_update e (\<lambda>r. Status r = Status global \<and> Gid r = Gid global \<and> model_pk global r)
               None (assign_cols [''next_cron_time'', ''update_time'', ''next_cron_interval''] ?g)
               (trans_global d))
        = map (\<lambda>r. if Status r = Status global \<and> Gid r = Gid global \<and> model_pk global r
                     then r\<lparr>NextCronTime := nextCronTime, UpdateTime := Some (now e),
                            NextCronInterval := nextCronInterval\<rparr>
                     else r)
               (trans_global d)"
    by (simp add: sql_update_rows update_bound_def touch_assign GetNextTime_def)
  then show ?thesis
    by (simp add: TouchCronTime_def Let_def split_beta pk GetNextTime_def)
qed

text \<open>
  C8, as the code has it. \<^verbatim>\<open>TouchCronTime\<close> always returns, without an error.
  The rows it matches are those with the record's \<open>gid\<close> and \<open>status\<close> and,
  when the record carries an \<open>id\<close> other than zero, with the record's \<open>id\<close>;
  each of them takes the supplied \<open>nextCronTime\<close> and \<open>nextCronInterval\<close>,
  every other row is left as it is, and when no row matches the store is as it was.
\<close>

theorem TouchCronTime_best_effort:
  assumes "TouchCronTime e global nextCronInterval nextCronTime d = (res, global', d')"
  shows "res = Return ()
       \<and> length (trans_global d') = length (trans_global d)
       \<and> (\<forall>i<length (trans_global d).
            if Status (trans_global d ! i) = Status global \<and> Gid (trans_global d ! i) = Gid global
               \<and> model_pk global (trans_global d ! i)
            then NextCronTime (trans_global d' ! i) = nextCronTime
               \<and> NextCronInterval (trans_global d' ! i) = nextCronInterval
            else trans_global d' ! i = trans_global d ! i)
       \<and> ((\<forall>r\<in>set (trans_global d).
               \<not> (Status r = Status global \<and> Gid r = Gid global \<and> model_pk global r))
            \<longrightarrow> d' = d)"
  using assms unfolding TouchCronTime_eq
  by (auto simp: map_unchanged)

theorem TouchCronTime_best_effort_witness:
  "TouchCronTime ex_env (mk_global 1 ''g1'' ''prepared'' None) 20 (Some 1020)
      \<lparr>trans_global = [mk_global 1 ''g1'' ''succeed'' (Some 5)], trans_branch_op = []\<rparr>
    = (Return (),
       (mk_global 1 ''g1'' ''prepared'' (Some 1020))\<lparr>UpdateTime := Some 1000, NextCronInterval := 20\<rparr>,
       \<lparr>trans_global = [mk_global 1 ''g1'' ''succeed'' (Some 5)], trans_branch_op = []\<rparr>)
   \<and> (\<exists>g' d'. TouchCronTime ex_env (mk_global 1 ''g1'' ''prepared'' None) 20 (Some 1020)
                  \<lparr>trans_global = [mk_global 1 ''g1'' ''prepared'' (Some 5)], trans_branch_op = []\<rparr>
                = (Return (), g', d')
              \<and> NextCronTime (trans_global d' ! 0) = Some 1020
              \<and> NextCronInterval (trans_global d' ! 0) = 20)"
proof -
  let ?d = "\<lparr>trans_global = [mk_global 1 ''g1'' ''succeed'' (Some 5)], trans_branch_op = []\<rparr>"
  obtain res global' d' where
    h: "TouchCronTime ex_env (mk_global 1 ''g1'' ''prepared'' None) 20 (Some 1020) ?d
          = (res, global', d')"
    by (cases "TouchCronTime ex_env (mk_global 1 ''g1'' ''prepared'' None) 20 (Some 1020) ?d") auto
  have g: "global' =
      (mk_global 1 ''g1'' ''prepared'' (Some 1020))\<lparr>UpdateTime := Some 1000, NextCronInterval := 20\<rparr>"
    using h by (simp add: TouchCronTime_eq mk_global_def ex_env_def)
  from TouchCronTime_best_effort[OF h] have "res = Return ()" and "d' = ?d"
    by (simp_all add: mk_global_def)
  with h g have one: "TouchCronTime ex_env (mk_global 1 ''g1'' ''prepared'' None) 20 (Some 1020) ?d
    = (Return (),
       (mk_global 1 ''g1'' ''prepared'' (Some 1020))\<lparr>UpdateTime := Some 1000, NextCronInterval := 20\<rparr>,
       ?d)"
    by simp
  let ?m = "\<lparr>trans_global = [mk_global 1 ''g1'' ''prepared'' (Some 5)], trans_branch_op = []\<rparr>"
  obtain res2 g2 d2 where
    h2: "TouchCronTime ex_env (mk_global 1 ''g1'' ''prepared'' None) 20 (Some 1020) ?m
          = (res2, g2, d2)"
    by (cases "TouchCronTime ex_env (mk_global 1 ''g1'' ''prepared'' None) 20 (Some 1020) ?m") auto
  from TouchCronTime_best_effort[OF h2]
  have "res2 = Return ()" and "NextCronTime (trans_global d2 ! 0) = Some 1020
          \<and> NextCronInterval (trans_global d2 ! 0) = 20"
    by (simp_all add: mk_global_def model_pk_def)
  with h2 have two: "\<exists>g' d'. TouchCronTime ex_env (mk_global 1 ''g1'' ''prepared'' None) 20 (Some 1020) ?m
                = (Return (), g', d')
              \<and> NextCronTime (trans_global d' ! 0) = Some 1020
              \<and> NextCronInterval (trans_global d' ! 0) = 20"
    by blast
  from one two show ?thesis by blast
qed

text \<open>
  C8 as the specification words it matches on the pair \<open>(gid, status)\<close> alone. The
  statement is built on the record, whose \<open>id\<close>, when it is not zero, is a
  condition of the update too: for a record with the \<open>id\<close> 9 the row with the
  record's \<open>gid\<close> and \<open>status\<close> and the \<open>id\<close> 1 is not rescheduled.
\<close>

theorem TouchCronTime_id_counterexample:
  "TouchCronTime ex_env (mk_global 9 ''g1'' ''prepared'' None) 20 (Some 1020)
      \<lparr>trans_global = [mk_global 1 ''g1'' ''prepared'' (Some 5)], trans_branch_op = []\<rparr>
    = (Return (),
       (mk_global 9 ''g1'' ''prepared'' (Some 1020))\<lparr>UpdateTime := Some 1000, NextCronInterval := 20\<rparr>,
       \<lparr>trans_global = [mk_global 1 ''g1'' ''prepared'' (Some 5)], trans_branch_op = []\<rparr>)"
  by (simp add: TouchCronTime_eq mk_global_def ex_env_def model_pk_def)

text \<open>
  C10. The table after \<^verbatim>\<open>TouchCronTime\<close> is the table before with the columns
  \<open>next_cron_time\<close>, \<open>update_time\<close> and \<open>next_cron_interval\<close> of the matched
  rows overwritten, \<open>update_time\<close> with the current time, and nothing else: the
  \<open>id\<close>, \<open>gid\<close>, \<open>status\<close> and \<open>owner\<close> of every row are what they
  were, rows that do not match are untouched, and so is the table of branches.
\<close>

theorem TouchCronTime_frame:
  assumes "TouchCronTime e global nextCronInterval nextCronTime d = (res, global', d')"
  shows "trans_global d' =
           map (\<lambda>r. if Status r = Status global \<and> Gid r = Gid global \<and> model_pk global r
                     then r\<lparr>NextCronTime := nextCronTime, UpdateTime := Some (now e),
                            NextCronInterval := nextCronInterval\<rparr>
                     else r)
               (trans_global d)
       \<and> trans_branch_op d' = trans_branch_op d
       \<and> (\<forall>i<length (trans_global d).
            ID (trans_global d' ! i) = ID (trans_global d ! i)
          \<and> Gid (trans_global d' ! i) = Gid (trans_global d ! i)
          \<and> Status (trans_global d' ! i) = Status (trans_global d ! i)
          \<and> Owner (trans_global d' ! i) = Owner (trans_global d ! i))"
  using assms unfolding TouchCronTime_eq
  by auto

theorem TouchCronTime_frame_witness:
  "trans_global (snd (snd (TouchCronTime ex_env (mk_global 1 ''g1'' ''prepared'' None) 20 (Some 1020)
      \<lparr>trans_global = [(mk_global 1 ''g1'' ''prepared'' (Some 5))\<lparr>Owner := ''w''\<rparr>,
                        mk_global 2 ''g2'' ''prepared'' (Some 7)],
       trans_branch_op = []\<rparr>)))
    = [\<lparr>ID = 1, UpdateTime = Some 1000, Gid = ''g1'', Status = ''prepared'', NextCronInterval = 20,
        NextCronTime = Some 1020, Owner = ''w''\<rparr>,
       mk_global 2 ''g2'' ''prepared'' (Some 7)]"
proof -
  let ?d = "\<lparr>trans_global = [(mk_global 1 ''g1'' ''prepared'' (Some 5))\<lparr>Owner := ''w''\<rparr>,
                              mk_global 2 ''g2'' ''prepared'' (Some 7)],
             trans_branch_op = []\<rparr>"
  obtain res global' d' where
    h: "TouchCronTime ex_env (mk_global 1 ''g1'' ''prepared'' None) 20 (Some 1020) ?d
          = (res, global', d')"
    by (cases "TouchCronTime ex_env (mk_global 1 ''g1'' ''prepared'' None) 20 (Some 1020) ?d") auto
  from TouchCronTime_frame[OF h] have "trans_global d' =
      [\<lparr>ID = 1, UpdateTime = Some 1000, Gid = ''g1'', Status = ''prepared'', NextCronInterval = 20,
        NextCronTime = Some 1020, Owner = ''w''\<rparr>,
       mk_global 2 ''g2'' ''prepared'' (Some 7)]"
    by (simp add: mk_global_def ex_env_def model_pk_def)
  with h show ?thesis by simp
qed

section \<open>Statements with a limit, and \<^verbatim>\<open>First\<close>\<close>

lemma update_limit_first:
  "\<forall>x\<in>set pre. \<not> p x \<Longrightarrow> p r \<Longrightarrow>
     update_limit (Suc n) p f (pre @ r # post) = pre @ f r # update_limit n p f post"
  by (induction pre) auto

lemma update_limit_all2:
  "list_all2 (\<lambda>r r'. r' = r \<or> (p r \<and> r' = f r)) rs (update_limit n p f rs)"
  by (induction n p f rs rule: update_limit.induct) (auto simp: list_all2_same)

lemma sql_update_all2:
  "list_all2 (\<lambda>r r'. r' = r \<or> (p r \<and> r' = f r)) rs (snd (sql_update e p lim f rs))"
proof (cases "update_bound e lim")
  case None
  then show ?thesis
    by (simp add: sql_update_rows list_all2_map2 list_all2_same)
next
  case (Some n)
  then show ?thesis by (simp add: sql_update_rows update_limit_all2)
qed

lemma sql_update_hits:
  assumes "\<exists>r\<in>set rs. p r"
  shows "\<exists>r\<in>set rs. p r \<and> f r \<in> set (snd (sql_update e p lim f rs))"
proof (cases "update_bound e lim")
  case None
  with assms show ?thesis by (auto simp: sql_update_rows)
next
  case (Some n)
  from update_bound_pos[OF Some] obtain m where n: "n = Suc m" by (cases n) auto
  from assms obtain pre r post where
    sp: "rs = pre @ r # post" and r: "p r" and pre: "\<forall>x\<in>set pre. \<not> p x"
    using split_list_first_prop[of rs p] by blast
  from update_limit_first[OF pre r, of m f post] Some n sp r show ?thesis
    by (auto simp: sql_update_rows)
qed

lemma First_None: "(First key p rs = None) = (\<forall>r\<in>set rs. \<not> p r)"
proof -
  have "(sort_key key (filter p rs) = []) = (filter p rs = [])"
    by (metis length_0_conv length_sort)
  then show ?thesis
    by (auto simp: First_def filter_empty_conv split: list.splits)
qed

lemma First_Some:
  assumes "First key p rs = Some g"
  shows "g \<in> set rs \<and> p g \<and> (\<forall>r\<in>set rs. p r \<longrightarrow> key g \<le> key r)"
proof -
  from assms obtain xs where s: "sort_key key (filter p rs) = g # xs"
    by (auto simp: First_def split: list.splits)
  have "set (sort_key key (filter p rs)) = set (filter p rs)" by simp
  with s have mem: "g \<in> set (filter p rs)" and sub: "set (filter p rs) = insert g (set xs)"
    by auto
  have "sorted (map key (sort_key key (filter p rs)))" by simp
  with s have "\<forall>x\<in>set xs. key g \<le> key x" by simp
  with mem sub show ?thesis by auto
qed

section \<open>LockOneGlobalTrans: claiming one due transaction\<close>

lemma lock_assign:
  "assign_cols [''owner'', ''next_cron_time'']
     (zero_TransGlobalStore\<lparr>Owner := uuid e, NextCronTime := GetNextTime e (RetryInterval e)\<rparr>)
   = (\<lambda>r. r\<lparr>Owner := uuid e, NextCronTime := Some (now e + RetryInterval e)\<rparr>)"
  by (rule ext) (simp add: assign_cols_def assign_col_def GetNextTime_def)

lemma getTime_Some:
  "Driver e = ''mysql'' \<or> Driver e = ''postgres'' \<Longrightarrow> getTime e s = Some (now e + s)"
  by (auto simp: getTime_def)

lemma getTime_cases: "getTime e s = None \<or> getTime e s = Some (now e + s)"
  by (auto simp: getTime_def)

lemma getTime_mysql: "getTime e s = None \<Longrightarrow> Driver e \<noteq> ''mysql''"
  by (auto simp: getTime_def)

lemma lock_where_iff:
  "lock_where c r =
     ((\<exists>t. NextCronTime r = Some t \<and> t < c) \<and> Status r \<in> {''prepared'', ''aborting'', ''submitted''})"
  by (auto simp: lock_where_def sql_lt_def status_in_def split: option.splits)

lemma LockOneGlobalTrans_panic:
  "getTime e (go_div expireIn time_Second) = None \<Longrightarrow>
     LockOneGlobalTrans e expireIn d = (Panic ErrSQL, d)"
  by (simp add: LockOneGlobalTrans_def Let_def)

lemma LockOneGlobalTrans_eq:
  assumes "getTime e (go_div expireIn time_Second) = Some c"
  shows "LockOneGlobalTrans e expireIn d =
     (let upd = sql_update e (lock_where c) (Some 1)
                  (\<lambda>r. r\<lparr>Owner := uuid e, NextCronTime := Some (now e + RetryInterval e)\<rparr>)
                  (trans_global d)
      in (if fst upd = 0 then Return None
          else (case First ID (\<lambda>r. Owner r = uuid e) (snd upd) of
                  None \<Rightarrow> Return (Some zero_TransGlobalStore)
                | Some g \<Rightarrow> Return (Some g)),
          d\<lparr>trans_global := snd upd\<rparr>))"
  using assms
  by (simp add: LockOneGlobalTrans_def Let_def lock_assign split_beta split: option.splits)

text \<open>
  C2, as the code has it. The cutoff is \<^verbatim>\<open>now()\<close> plus \<open>expireIn\<close> in whole
  seconds, not \<^verbatim>\<open>now()\<close>. Whatever the driver, every row of the table is
  afterwards either as it was, or it was eligible (a status in
  \<open>{prepared, aborting, submitted}\<close> and a \<open>next_cron_time\<close> before the cutoff)
  and has the owner token of the call and \<^verbatim>\<open>now()\<close> plus the retry interval as
  its \<open>next_cron_time\<close>; the branches are untouched. With the mysql driver, where
  the limit of one row is part of the update, exactly one eligible row is claimed
  when there is one, and nothing is written when there is none.
\<close>

theorem LockOneGlobalTrans_claim:
  assumes run: "LockOneGlobalTrans e expireIn d = (res, d')"
  shows "trans_branch_op d' = trans_branch_op d
       \<and> list_all2
           (\<lambda>r r'. r' = r
              \<or> ((\<exists>t. NextCronTime r = Some t \<and> t < now e + go_div expireIn time_Second)
                 \<and> Status r \<in> {''prepared'', ''aborting'', ''submitted''}
                 \<and> r' = r\<lparr>Owner := uuid e, NextCronTime := Some (now e + RetryInterval e)\<rparr>))
           (trans_global d) (trans_global d')
       \<and> (Driver e = ''mysql'' \<longrightarrow>
            (if \<exists>r\<in>set (trans_global d). \<exists>t.
                   NextCronTime r = Some t \<and> t < now e + go_div expireIn time_Second
                 \<and> Status r \<in> {''prepared'', ''aborting'', ''submitted''}
             then \<exists>pre r post t.
                    trans_global d = pre @ r # post
                  \<and> NextCronTime r = Some t \<and> t < now e + go_div expireIn time_Second
                  \<and> Status r \<in> {''prepared'', ''aborting'', ''submitted''}
                  \<and> trans_global d' =
                      pre @ r\<lparr>Owner := uuid e, NextCronTime := Some (now e + RetryInterval e)\<rparr> # post
             else trans_global d' = trans_global d))"
    (is "?A \<and> ?B \<and> (_ \<longrightarrow> (if ?C then ?T else ?E))")
proof -
  let ?c = "now e + go_div expireIn time_Second"
  let ?f = "\<lambda>r. r\<lparr>Owner := uuid e, NextCronTime := Some (now e + RetryInterval e)\<rparr>"
  let ?upd = "sql_update e (lock_where ?c) (Some 1) ?f (trans_global d)"
  have C: "?C = (\<exists>r\<in>set (trans_global d). lock_where ?c r)"
    by (auto simp: lock_where_iff)
  show ?thesis
  proof (cases "getTime e (go_div expireIn time_Second)")
    case None
    with LockOneGlobalTrans_panic run have "d' = d" by simp
    moreover from None have "Driver e \<noteq> ''mysql''" by (rule getTime_mysql)
    ultimately show ?thesis by (simp add: list_all2_same)
  next
    case (Some c)
    with getTime_cases[of e "go_div expireIn time_Second"] have c: "c = ?c" by simp
    from run Some c have d': "d' = d\<lparr>trans_global := snd ?upd\<rparr>"
      by (simp add: LockOneGlobalTrans_eq Let_def)
    have A: ?A using d' by simp
    have "list_all2 (\<lambda>r r'. r' = r \<or> (lock_where ?c r \<and> r' = ?f r))
            (trans_global d) (trans_global d')"
      using d' sql_update_all2[of "lock_where ?c" ?f "trans_global d" e "Some 1"] by simp
    then have B: ?B
      by (rule list_all2_mono) (auto simp: lock_where_iff)
    have M: "if ?C then ?T else ?E" if my: "Driver e = ''mysql''"
    proof (cases ?C)
      case True
      with C obtain pre r post where
        sp: "trans_global d = pre @ r # post" and r: "lock_where ?c r"
        and pre: "\<forall>x\<in>set pre. \<not> lock_where ?c x"
        using split_list_first_prop[of "trans_global d" "lock_where ?c"] by blast
      from my have "update_bound e (Some 1) = Some (Suc 0)" by (simp add: update_bound_def)
      then have "snd ?upd = pre @ ?f r # post"
        using update_limit_first[OF pre r, of 0 ?f post] sp by (simp add: sql_update_rows)
      with d' have rows': "trans_global d' = pre @ ?f r # post" by simp
      from r obtain t where t: "NextCronTime r = Some t" "t < ?c"
        "Status r \<in> {''prepared'', ''aborting'', ''submitted''}"
        by (auto simp: lock_where_iff)
      have ?T
        using sp t rows' by (intro exI[of _ pre] exI[of _ r] exI[of _ post] exI[of _ t]) simp
      then show ?thesis unfolding if_P[OF True] .
    next
      case False
      with C have "\<forall>r\<in>set (trans_global d). \<not> lock_where ?c r" by blast
      from sql_update_no_match[OF this, of e "Some 1" ?f] d' have ?E by simp
      then show ?thesis unfolding if_not_P[OF False] .
    qed
    from A B M show ?thesis by blast
  qed
qed

text \<open>
  C7. For the mysql and postgres drivers: \<^verbatim>\<open>LockOneGlobalTrans\<close> returns nil
  exactly when the claiming update reports no affected row, and the store is then
  as it was; it does so whenever no row is eligible. Otherwise it returns a row of
  the table as it is after the update, whole, whose owner is the token of the call:
  of the rows with that owner the one \<^verbatim>\<open>First\<close> reads, with the least \<open>id\<close>.
  When the token is fresh (no row carried it before) and some row is eligible, the
  row returned is an eligible row as the update rewrote it.
\<close>

theorem LockOneGlobalTrans_result:
  assumes run: "LockOneGlobalTrans e expireIn d = (res, d')"
    and drv: "Driver e = ''mysql'' \<or> Driver e = ''postgres''"
  shows "((res = Return None) =
            (fst (sql_update e (lock_where (now e + go_div expireIn time_Second)) (Some 1)
                    (\<lambda>r. r\<lparr>Owner := uuid e, NextCronTime := Some (now e + RetryInterval e)\<rparr>)
                    (trans_global d)) = 0))
       \<and> (res = Return None \<longrightarrow> d' = d)
       \<and> ((\<forall>r\<in>set (trans_global d). \<not> lock_where (now e + go_div expireIn time_Second) r)
            \<longrightarrow> res = Return None)
       \<and> (res \<noteq> Return None \<longrightarrow>
            (\<exists>g. res = Return (Some g) \<and> g \<in> set (trans_global d') \<and> Owner g = uuid e
               \<and> (\<forall>x\<in>set (trans_global d'). Owner x = uuid e \<longrightarrow> ID g \<le> ID x)))
       \<and> ((\<forall>r\<in>set (trans_global d). Owner r \<noteq> uuid e)
            \<and> (\<exists>r\<in>set (trans_global d). lock_where (now e + go_div expireIn time_Second) r)
            \<longrightarrow> (\<exists>g r. res = Return (Some g) \<and> r \<in> set (trans_global d)
                    \<and> lock_where (now e + go_div expireIn time_Second) r
                    \<and> g = r\<lparr>Owner := uuid e, NextCronTime := Some (now e + RetryInterval e)\<rparr>))"
proof -
  let ?c = "now e + go_div expireIn time_Second"
  let ?p = "lock_where ?c"
  let ?f = "\<lambda>r. r\<lparr>Owner := uuid e, NextCronTime := Some (now e + RetryInterval e)\<rparr>"
  let ?upd = "sql_update e ?p (Some 1) ?f (trans_global d)"
  let ?fst = "First ID (\<lambda>r. Owner r = uuid e) (snd ?upd)"
  from drv have gt: "getTime e (go_div expireIn time_Second) = Some ?c"
    by (rule getTime_Some)
  from run have "(if fst ?upd = 0 then Return None
          else (case ?fst of None \<Rightarrow> Return (Some zero_TransGlobalStore) | Some g \<Rightarrow> Return (Some g)),
          d\<lparr>trans_global := snd ?upd\<rparr>) = (res, d')"
    unfolding LockOneGlobalTrans_eq[OF gt] Let_def .
  then have res: "res = (if fst ?upd = 0 then Return None
          else (case ?fst of None \<Rightarrow> Return (Some zero_TransGlobalStore) | Some g \<Rightarrow> Return (Some g)))"
    and d': "d' = d\<lparr>trans_global := snd ?upd\<rparr>"
    by blast+
  have all2: "list_all2 (\<lambda>r r'. r' = r \<or> (?p r \<and> r' = ?f r)) (trans_global d) (snd ?upd)"
    by (rule sql_update_all2)
  have nz: "\<exists>r\<in>set (trans_global d). ?p r" if "fst ?upd \<noteq> 0"
  proof (rule ccontr)
    assume "\<not> (\<exists>r\<in>set (trans_global d). ?p r)"
    then have "\<forall>r\<in>set (trans_global d). \<not> ?p r" by blast
    from sql_update_no_match[OF this, of e "Some 1" ?f] that show False by simp
  qed
  have found: "\<exists>g. ?fst = Some g" if "\<exists>r\<in>set (trans_global d). ?p r"
  proof -
    from sql_update_hits[OF that, of ?f e "Some 1"] obtain r where
      "?f r \<in> set (snd ?upd)" by blast
    moreover have "Owner (?f r) = uuid e" by simp
    ultimately have "?fst \<noteq> None" unfolding First_None by blast
    then show ?thesis by auto
  qed
  have one: "(res = Return None) = (fst ?upd = 0)"
    using res by (auto split: option.splits)
  have two: "res = Return None \<longrightarrow> d' = d"
  proof
    assume "res = Return None"
    with one have z: "fst ?upd = 0" by simp
    have "snd ?upd = trans_global d"
    proof (cases "counts_changed e")
      case True
      with z show ?thesis by (simp add: sql_update_zero)
    next
      case False
      with z have "\<forall>r\<in>set (trans_global d). \<not> ?p r" by (simp add: sql_update_zero)
      from sql_update_no_match[OF this, of e "Some 1" ?f] show ?thesis by simp
    qed
    with d' show "d' = d" by simp
  qed
  have three: "(\<forall>r\<in>set (trans_global d). \<not> ?p r) \<longrightarrow> res = Return None"
  proof
    assume "\<forall>r\<in>set (trans_global d). \<not> ?p r"
    from sql_update_no_match[OF this, of e "Some 1" ?f] one show "res = Return None" by simp
  qed
  have four: "res \<noteq> Return None \<longrightarrow>
            (\<exists>g. res = Return (Some g) \<and> g \<in> set (trans_global d') \<and> Owner g = uuid e
               \<and> (\<forall>x\<in>set (trans_global d'). Owner x = uuid e \<longrightarrow> ID g \<le> ID x))"
  proof
    assume "res \<noteq> Return None"
    with one have n: "fst ?upd \<noteq> 0" by simp
    from found[OF nz[OF n]] obtain g where g: "?fst = Some g" by blast
    from res n g have "res = Return (Some g)" by simp
    with First_Some[OF g] d' show "\<exists>g. res = Return (Some g) \<and> g \<in> set (trans_global d')
        \<and> Owner g = uuid e \<and> (\<forall>x\<in>set (trans_global d'). Owner x = uuid e \<longrightarrow> ID g \<le> ID x)"
      by simp
  qed
  have five: "(\<forall>r\<in>set (trans_global d). Owner r \<noteq> uuid e) \<and> (\<exists>r\<in>set (trans_global d). ?p r)
            \<longrightarrow> (\<exists>g r. res = Return (Some g) \<and> r \<in> set (trans_global d) \<and> ?p r \<and> g = ?f r)"
  proof
    assume a: "(\<forall>r\<in>set (trans_global d). Owner r \<noteq> uuid e) \<and> (\<exists>r\<in>set (trans_global d). ?p r)"
    then have fresh: "\<forall>r\<in>set (trans_global d). Owner r \<noteq> uuid e"
      and ex: "\<exists>r\<in>set (trans_global d). ?p r" by blast+
    from sql_update_hits[OF ex, of ?f e "Some 1"] obtain r0 where
      r0: "r0 \<in> set (trans_global d)" "?f r0 \<in> set (snd ?upd)" by blast
    with fresh have "?f r0 \<notin> set (trans_global d)" by auto
    with r0 have "snd ?upd \<noteq> trans_global d" by auto
    moreover from ex have "\<not> (\<forall>r\<in>set (trans_global d). \<not> ?p r)" by blast
    ultimately have n: "fst ?upd \<noteq> 0" by (simp add: sql_update_zero)
    from found[OF ex] obtain g where g: "?fst = Some g" by blast
    from res n g have rg: "res = Return (Some g)" by simp
    from First_Some[OF g] have gm: "g \<in> set (snd ?upd)" and go: "Owner g = uuid e" by simp_all
    from gm obtain i where i: "i < length (snd ?upd)" "snd ?upd ! i = g"
      by (auto simp: in_set_conv_nth)
    from all2 i have "g = trans_global d ! i \<or> (?p (trans_global d ! i) \<and> g = ?f (trans_global d ! i))"
      by (auto simp: list_all2_conv_all_nth)
    moreover from i have m: "trans_global d ! i \<in> set (trans_global d)" by simp
    moreover from m fresh go have "g \<noteq> trans_global d ! i" by auto
    ultimately have "?p (trans_global d ! i) \<and> g = ?f (trans_global d ! i)" by blast
    with rg m show "\<exists>g r. res = Return (Some g) \<and> r \<in> set (trans_global d) \<and> ?p r \<and> g = ?f r"
      by blast
  qed
  from one two three four five show ?thesis by blast
qed

lemmas lock_eval =
  LockOneGlobalTrans_def go_div_def time_Second_def getTime_def lock_where_def sql_lt_def
  status_in_def zero_TransGlobalStore_def GetNextTime_def First_def ex_rows_def update_eval

lemma LockOneGlobalTrans_ex:
  "LockOneGlobalTrans ex_env 0 \<lparr>trans_global = ex_rows, trans_branch_op = []\<rparr>
     = (Return (Some ((mk_global 2 ''g2'' ''prepared'' (Some 1010))\<lparr>Owner := ''tok''\<rparr>)),
        \<lparr>trans_global =
           [mk_global 1 ''g1'' ''succeed'' (Some 5),
            (mk_global 2 ''g2'' ''prepared'' (Some 1010))\<lparr>Owner := ''tok''\<rparr>,
            mk_global 3 ''g3'' ''submitted'' (Some 950)],
         trans_branch_op = []\<rparr>)"
  by (simp add: lock_eval)

text \<open>
  With the postgres driver the update carries no limit: both eligible rows of
  \<open>ex_rows\<close> receive the token, and the row returned is the one with the least
  \<open>id\<close>.
\<close>

lemma LockOneGlobalTrans_ex_pg:
  "LockOneGlobalTrans ex_env_pg 0 \<lparr>trans_global = ex_rows, trans_branch_op = []\<rparr>
     = (Return (Some ((mk_global 2 ''g2'' ''prepared'' (Some 1010))\<lparr>Owner := ''tok''\<rparr>)),
        \<lparr>trans_global =
           [mk_global 1 ''g1'' ''succeed'' (Some 5),
            (mk_global 2 ''g2'' ''prepared'' (Some 1010))\<lparr>Owner := ''tok''\<rparr>,
            (mk_global 3 ''g3'' ''submitted'' (Some 1010))\<lparr>Owner := ''tok''\<rparr>],
         trans_branch_op = []\<rparr>)"
  by (simp add: lock_eval)

theorem LockOneGlobalTrans_claim_witness:
  "\<exists>pre r post t.
      ex_rows = pre @ r # post
    \<and> NextCronTime r = Some t \<and> t < now ex_env + go_div 0 time_Second
    \<and> Status r \<in> {''prepared'', ''aborting'', ''submitted''}
    \<and> [mk_global 1 ''g1'' ''succeed'' (Some 5),
        (mk_global 2 ''g2'' ''prepared'' (Some 1010))\<lparr>Owner := ''tok''\<rparr>,
        mk_global 3 ''g3'' ''submitted'' (Some 950)]
       = pre @ r\<lparr>Owner := uuid ex_env, NextCronTime := Some (now ex_env + RetryInterval ex_env)\<rparr> # post"
proof -
  let ?d = "\<lparr>trans_global = ex_rows, trans_branch_op = []\<rparr>"
  have my: "Driver ex_env = ''mysql''" by (simp add: ex_env_def)
  have c: "\<exists>r\<in>set (trans_global ?d). \<exists>t.
                   NextCronTime r = Some t \<and> t < now ex_env + go_div 0 time_Second
                 \<and> Status r \<in> {''prepared'', ''aborting'', ''submitted''}"
    by (simp add: ex_env_def ex_rows_def mk_global_def go_div_def time_Second_def)
  from LockOneGlobalTrans_claim[OF LockOneGlobalTrans_ex] my
  have "if \<exists>r\<in>set (trans_global ?d). \<exists>t.
                   NextCronTime r = Some t \<and> t < now ex_env + go_div 0 time_Second
                 \<and> Status r \<in> {''prepared'', ''aborting'', ''submitted''}
        then \<exists>pre r post t.
                    trans_global ?d = pre @ r # post
                  \<and> NextCronTime r = Some t \<and> t < now ex_env + go_div 0 time_Second
                  \<and> Status r \<in> {''prepared'', ''aborting'', ''submitted''}
                  \<and> trans_global \<lparr>trans_global =
           [mk_global 1 ''g1'' ''succeed'' (Some 5),
            (mk_global 2 ''g2'' ''prepared'' (Some 1010))\<lparr>Owner := ''tok''\<rparr>,
            mk_global 3 ''g3'' ''submitted'' (Some 950)],
         trans_branch_op = []\<rparr> =
                      pre @ r\<lparr>Owner := uuid ex_env, NextCronTime := Some (now ex_env + RetryInterval ex_env)\<rparr> # post
        else trans_global \<lparr>trans_global =
           [mk_global 1 ''g1'' ''succeed'' (Some 5),
            (mk_global 2 ''g2'' ''prepared'' (Some 1010))\<lparr>Owner := ''tok''\<rparr>,
            mk_global 3 ''g3'' ''submitted'' (Some 950)],
         trans_branch_op = []\<rparr> = trans_global ?d"
    by blast
  from this[unfolded if_P[OF c]] show ?thesis by simp
qed

text \<open>
  C2 as the specification words it has the cutoff equal to \<^verbatim>\<open>now()\<close>. With
  \<open>expireIn\<close> of ten seconds, a row due five seconds from now, which is not
  earlier than \<^verbatim>\<open>now()\<close>, is claimed.
\<close>

theorem LockOneGlobalTrans_cutoff_counterexample:
  "LockOneGlobalTrans ex_env 10000000000
      \<lparr>trans_global = [mk_global 1 ''g1'' ''prepared'' (Some 1005)], trans_branch_op = []\<rparr>
     = (Return (Some ((mk_global 1 ''g1'' ''prepared'' (Some 1010))\<lparr>Owner := ''tok''\<rparr>)),
        \<lparr>trans_global = [(mk_global 1 ''g1'' ''prepared'' (Some 1010))\<lparr>Owner := ''tok''\<rparr>],
         trans_branch_op = []\<rparr>)
   \<and> \<not> (1005 < now ex_env)"
  by (simp add: lock_eval)

theorem LockOneGlobalTrans_result_witness:
  "(\<exists>g r. Return (Some ((mk_global 2 ''g2'' ''prepared'' (Some 1010))\<lparr>Owner := ''tok''\<rparr>))
            = Return (Some g)
        \<and> r \<in> set ex_rows
        \<and> lock_where (now ex_env_pg + go_div 0 time_Second) r
        \<and> g = r\<lparr>Owner := uuid ex_env_pg,
                 NextCronTime := Some (now ex_env_pg + RetryInterval ex_env_pg)\<rparr>)
   \<and> LockOneGlobalTrans ex_env 0
        \<lparr>trans_global = [mk_global 1 ''g1'' ''succeed'' (Some 5)], trans_branch_op = []\<rparr>
      = (Return None, \<lparr>trans_global = [mk_global 1 ''g1'' ''succeed'' (Some 5)], trans_branch_op = []\<rparr>)"
proof -
  let ?d = "\<lparr>trans_global = ex_rows, trans_branch_op = []\<rparr>"
  have drv: "Driver ex_env_pg = ''mysql'' \<or> Driver ex_env_pg = ''postgres''"
    by (simp add: ex_env_pg_def)
  have fresh: "(\<forall>r\<in>set (trans_global ?d). Owner r \<noteq> uuid ex_env_pg)
       \<and> (\<exists>r\<in>set (trans_global ?d). lock_where (now ex_env_pg + go_div 0 time_Second) r)"
    by (simp add: ex_env_pg_def ex_env_def ex_rows_def mk_global_def lock_where_def sql_lt_def
          status_in_def go_div_def time_Second_def)
  from LockOneGlobalTrans_result[OF LockOneGlobalTrans_ex_pg drv]
  have "(\<forall>r\<in>set (trans_global ?d). Owner r \<noteq> uuid ex_env_pg)
       \<and> (\<exists>r\<in>set (trans_global ?d). lock_where (now ex_env_pg + go_div 0 time_Second) r)
     \<longrightarrow> (\<exists>g r. Return (Some ((mk_global 2 ''g2'' ''prepared'' (Some 1010))\<lparr>Owner := ''tok''\<rparr>))
            = Return (Some g)
        \<and> r \<in> set (trans_global ?d)
        \<and> lock_where (now ex_env_pg + go_div 0 time_Second) r
        \<and> g = r\<lparr>Owner := uuid ex_env_pg,
                 NextCronTime := Some (now ex_env_pg + RetryInterval ex_env_pg)\<rparr>)"
    by blast
  from mp[OF this fresh]
  have one: "\<exists>g r. Return (Some ((mk_global 2 ''g2'' ''prepared'' (Some 1010))\<lparr>Owner := ''tok''\<rparr>))
            = Return (Some g)
        \<and> r \<in> set ex_rows
        \<and> lock_where (now ex_env_pg + go_div 0 time_Second) r
        \<and> g = r\<lparr>Owner := uuid ex_env_pg,
                 NextCronTime := Some (now ex_env_pg + RetryInterval ex_env_pg)\<rparr>"
    unfolding db.simps .
  let ?d0 = "\<lparr>trans_global = [mk_global 1 ''g1'' ''succeed'' (Some 5)], trans_branch_op = []\<rparr>"
  have drv0: "Driver ex_env = ''mysql'' \<or> Driver ex_env = ''postgres''"
    by (simp add: ex_env_def)
  obtain res d' where h: "LockOneGlobalTrans ex_env 0 ?d0 = (res, d')"
    by (cases "LockOneGlobalTrans ex_env 0 ?d0") auto
  have none: "\<forall>r\<in>set (trans_global ?d0). \<not> lock_where (now ex_env + go_div 0 time_Second) r"
    by (simp add: lock_where_def status_in_def mk_global_def)
  from LockOneGlobalTrans_result[OF h drv0] none have "res = Return None \<and> d' = ?d0"
    by blast
  with h one show ?thesis by simp
qed

section \<open>ResetCronTime: repairing runaway backoff\<close>

lemma go_div_nonneg: "0 \<le> a \<Longrightarrow> 0 < b \<Longrightarrow> go_div a b = a div b"
  by (cases "a = 0") (auto simp: go_div_def)

lemma int_div_less_iff: 
  assumes "0 < (b::int)" shows "(a div b < k) = (a < k * b)"
proof -
  have "(a - k * b) div b = a div b - k"
    using div_mult_self1[of b a "- k"] assms by simp
  moreover have "((a - k * b) div b < 0) = (a - k * b < 0)"
    using assms by (rule pos_imp_zdiv_neg_iff)
  ultimately show ?thesis by simp
qed

lemma reset_where_spec:
  assumes "0 \<le> timeout"
  shows "reset_where (now e + go_div timeout time_Second) r = spec_overdue e timeout r"
proof -
  have S: "0 < time_Second" by (simp add: time_Second_def)
  have "(now e + timeout div time_Second < t) = (now e * time_Second + timeout < t * time_Second)" for t
    using int_div_less_iff[OF S, of timeout "t - now e"] by (simp add: algebra_simps)
  then show ?thesis
    using assms S
    by (auto simp: reset_where_def spec_overdue_def sql_gt_def status_in_def go_div_nonneg
          split: option.splits)
qed

lemma update_limit_remaining:
  "\<forall>r. p r \<longrightarrow> \<not> p (f r) \<Longrightarrow>
     length (filter p (update_limit n p f rs)) = length (filter p rs) - n"
  by (induction n p f rs rule: update_limit.induct) auto

lemma update_limit_changed:
  "\<forall>r. p r \<longrightarrow> f r \<noteq> r \<Longrightarrow>
     length (filter (\<lambda>(r, r'). r' \<noteq> r) (zip rs (update_limit n p f rs)))
       = min n (length (filter p rs))"
proof (induction n p f rs rule: update_limit.induct)
  case (1 p f rs)
  have "filter (\<lambda>(r, r'). r' \<noteq> r) (zip rs rs) = []"
    by (auto simp: filter_empty_conv in_set_zip)
  then show ?case by simp
qed auto

lemma reset_assign:
  "assign_cols [''next_cron_time''] (zero_TransGlobalStore\<lparr>NextCronTime := GetNextTime e 0\<rparr>)
     = (\<lambda>r. r\<lparr>NextCronTime := Some (now e)\<rparr>)"
  by (rule ext) (simp add: assign_cols_def assign_col_def GetNextTime_def)

lemma sql_update_mysql:
  assumes my: "Driver e = ''mysql''" and lim: "0 < limit"
    and neq: "\<forall>r. p r \<longrightarrow> f r \<noteq> r"
  shows "sql_update e p (Some limit) f rs
           = (int (min (nat limit) (length (filter p rs))), update_limit (nat limit) p f rs)"
proof -
  have b: "update_bound e (Some limit) = Some (nat limit)"
    using my lim by (simp add: update_bound_def)
  show ?thesis
    using update_limit_changed[OF neq, where n = "nat limit" and rs = rs]
    by (simp add: sql_update_def b Let_def min.commute)
qed

lemma ResetCronTime_eq:
  assumes gt: "getTime e (go_div timeout time_Second) = Some t"
  shows "ResetCronTime e timeout limit d =
    (let upd = sql_update e (reset_where t) (Some limit)
                 (\<lambda>r. r\<lparr>NextCronTime := Some (now e)\<rparr>) (trans_global d)
     in (Return (fst upd, fst upd = limit \<and> 0 < sql_count (reset_where t) (snd upd), None),
         d\<lparr>trans_global := snd upd\<rparr>))"
  by (simp add: ResetCronTime_def gt reset_assign Let_def split: prod.splits)

lemmas reset_eval =
  ResetCronTime_def go_div_def time_Second_def getTime_def reset_where_def sql_gt_def
  status_in_def zero_TransGlobalStore_def GetNextTime_def sql_count_def ex_backoff_def
  update_eval

lemma ResetCronTime_ex:
  "ResetCronTime ex_env 3600000000000 1 \<lparr>trans_global = ex_backoff, trans_branch_op = []\<rparr>
     = (Return (1, True, None),
        \<lparr>trans_global =
           [mk_global 1 ''g1'' ''prepared'' (Some 1000),
            mk_global 2 ''g2'' ''prepared'' (Some 1500),
            mk_global 3 ''g3'' ''submitted'' (Some 8200)],
         trans_branch_op = []\<rparr>)"
  by (simp add: reset_eval)

text \<open>
  With the mysql driver, a ceiling that is not negative and a positive page limit,
  the page limit is part of the update: every row of the table is either left as
  it is or was overdue (\<open>spec_overdue\<close>: a status in
  \<open>{prepared, aborting, submitted}\<close> and a \<open>next_cron_time\<close> later than
  \<^verbatim>\<open>now()\<close> plus the ceiling) and has its \<open>next_cron_time\<close> reset to
  \<^verbatim>\<open>now()\<close>; the number of rows reset is the returned count, the smaller of
  the page limit and the number of overdue rows; and \<open>hasRemaining\<close> is true
  exactly when the count reached the page limit and an overdue row is still in
  the table.
\<close>

lemma ResetCronTime_page:
  assumes run: "ResetCronTime e timeout limit d = (res, d')"
    and drv: "Driver e = ''mysql''"
    and tmo: "0 \<le> timeout"
    and lim: "0 < limit"
  shows "\<exists>fixedCount hasMore.
           res = Return (fixedCount, hasMore, None)
         \<and> trans_branch_op d' = trans_branch_op d
         \<and> list_all2 (\<lambda>r r'. r' = r \<or> (spec_overdue e timeout r \<and> r' = r\<lparr>NextCronTime := Some (now e)\<rparr>))
              (trans_global d) (trans_global d')
         \<and> fixedCount = int (length (filter (\<lambda>(r, r'). r' \<noteq> r) (zip (trans_global d) (trans_global d'))))
         \<and> fixedCount = min limit (int (length (filter (spec_overdue e timeout) (trans_global d))))
         \<and> hasMore = (fixedCount = limit \<and> (\<exists>r\<in>set (trans_global d'). spec_overdue e timeout r))
         \<and> hasMore = (limit < int (length (filter (spec_overdue e timeout) (trans_global d))))"
proof -
  let ?p = "spec_overdue e timeout"
  let ?f = "\<lambda>r. r\<lparr>NextCronTime := Some (now e)\<rparr>"
  let ?rows = "trans_global d"
  let ?rows' = "update_limit (nat limit) ?p ?f ?rows"
  let ?n = "int (min (nat limit) (length (filter ?p ?rows)))"
  have p: "reset_where (now e + go_div timeout time_Second) = ?p"
    by (rule ext) (rule reset_where_spec[OF tmo])
  have gt: "getTime e (go_div timeout time_Second) = Some (now e + go_div timeout time_Second)"
    using drv by (simp add: getTime_Some)
  have notp: "\<forall>r. ?p r \<longrightarrow> \<not> ?p (?f r)"
    using tmo by (simp add: spec_overdue_def)
  have neq: "\<forall>r. ?p r \<longrightarrow> ?f r \<noteq> r"
  proof (intro allI impI)
    fix r assume "?p r"
    with notp have "\<not> ?p (?f r)" by blast
    with \<open>?p r\<close> show "?f r \<noteq> r" by auto
  qed
  have upd: "sql_update e ?p (Some limit) ?f ?rows = (?n, ?rows')"
    by (rule sql_update_mysql[OF drv lim neq])
  from run have "(Return (?n, ?n = limit \<and> 0 < sql_count ?p ?rows', None), d\<lparr>trans_global := ?rows'\<rparr>)
                   = (res, d')"
    unfolding ResetCronTime_eq[OF gt] p upd Let_def fst_conv snd_conv .
  then have res: "res = Return (?n, ?n = limit \<and> 0 < sql_count ?p ?rows', None)"
    and d': "d' = d\<lparr>trans_global := ?rows'\<rparr>"
    by blast+
  have n: "?n = min limit (int (length (filter ?p ?rows)))"
    using lim by simp
  have rem: "length (filter ?p ?rows') = length (filter ?p ?rows) - nat limit"
    by (rule update_limit_remaining[OF notp])
  have chg: "int (length (filter (\<lambda>(r, r'). r' \<noteq> r) (zip ?rows ?rows'))) = ?n"
    using update_limit_changed[OF neq, where n = "nat limit" and rs = ?rows] by simp
  have ex: "(\<exists>r\<in>set ?rows'. ?p r) = (0 < length (filter ?p ?rows'))"
    by (simp add: filter_empty_conv)
  have more1: "(?n = limit \<and> 0 < sql_count ?p ?rows')
                 = (?n = limit \<and> (\<exists>r\<in>set ?rows'. ?p r))"
    using ex by (simp add: sql_count_def)
  have more2: "(?n = limit \<and> 0 < sql_count ?p ?rows')
                 = (limit < int (length (filter ?p ?rows)))"
    using rem lim by (auto simp: sql_count_def)
  show ?thesis
    apply (rule exI[of _ ?n])
    apply (rule exI[of _ "?n = limit \<and> 0 < sql_count ?p ?rows'"])
    apply (intro conjI)
    subgoal by (rule res)
    subgoal using d' by simp
    subgoal using d' update_limit_all2[where p = ?p and f = ?f and rs = ?rows and n = "nat limit"] by simp
    subgoal using d' chg by simp
    subgoal by (rule n)
    subgoal using d' more1 by simp
    subgoal by (rule more2)
    done
qed

lemma ResetCronTime_page_ex:
  "(1::int) = min 1 (int (length (filter (spec_overdue ex_env 3600000000000) ex_backoff)))
   \<and> 1 < int (length (filter (spec_overdue ex_env 3600000000000) ex_backoff))"
proof -
  have drv: "Driver ex_env = ''mysql''"
    by (simp add: ex_env_def)
  from ResetCronTime_page[OF ResetCronTime_ex drv] ResetCronTime_ex
  show ?thesis by auto
qed

text \<open>
  C5. \<^verbatim>\<open>ResetCronTime\<close> passes the page limit to \<^verbatim>\<open>Limit\<close>, and with the
  postgres driver, which \<open>getTime\<close> serves, no limit reaches the update. On
  \<open>ex_backoff\<close>, where two rows are overdue by a ceiling of one hour, a call with
  the page limit 1 resets both rows, returns the count 2, above the page limit,
  and returns \<open>hasRemaining\<close> false.
\<close>

theorem ResetCronTime_postgres_unbounded:
  "ResetCronTime ex_env_pg 3600000000000 1 \<lparr>trans_global = ex_backoff, trans_branch_op = []\<rparr>
     = (Return (2, False, None),
        \<lparr>trans_global =
           [mk_global 1 ''g1'' ''prepared'' (Some 1000),
            mk_global 2 ''g2'' ''prepared'' (Some 1500),
            mk_global 3 ''g3'' ''submitted'' (Some 1000)],
         trans_branch_op = []\<rparr>)
   \<and> filter (spec_overdue ex_env_pg 3600000000000) ex_backoff
       = [mk_global 1 ''g1'' ''prepared'' (Some 37000), mk_global 3 ''g3'' ''submitted'' (Some 8200)]"
  by (simp add: reset_eval spec_overdue_def)

text \<open>
  A page limit of zero puts no limit into the statement either, with any driver:
  both overdue rows are reset.
\<close>

lemma ResetCronTime_limit_zero:
  "ResetCronTime ex_env 3600000000000 0 \<lparr>trans_global = ex_backoff, trans_branch_op = []\<rparr>
     = (Return (2, False, None),
        \<lparr>trans_global =
           [mk_global 1 ''g1'' ''prepared'' (Some 1000),
            mk_global 2 ''g2'' ''prepared'' (Some 1500),
            mk_global 3 ''g3'' ''submitted'' (Some 1000)],
         trans_branch_op = []\<rparr>)"
  by (simp add: reset_eval)

section \<open>MaySaveNewTrans: creation, once\<close>

lemma bkey_bID [simp]: "bkey (b\<lparr>bID := i\<rparr>) = bkey b"
  by (simp add: bkey_def)

lemma Create_branches_keys:
  "bkey ` set (Create_branches bs rows) = bkey ` set rows \<union> bkey ` set bs"
proof (induction bs arbitrary: rows)
  case Nil
  then show ?case by simp
next
  case (Cons b bs)
  show ?case
  proof (cases "bkey b \<in> bkey ` set rows")
    case True
    then have "Create_branches (b # bs) rows = Create_branches bs rows" by simp
    with Cons.IH[of rows] True show ?thesis by (simp add: insert_absorb)
  next
    case False
    then have "Create_branches (b # bs) rows
                 = Create_branches bs (rows @ [b\<lparr>bID := next_id (map bID rows)\<rparr>])"
      by simp
    with Cons.IH[of "rows @ [b\<lparr>bID := next_id (map bID rows)\<rparr>]"] show ?thesis
      by (simp add: Un_commute insert_commute)
  qed
qed

lemma Create_branches_distinct:
  "distinct (map bkey rows) \<Longrightarrow> distinct (map bkey (Create_branches bs rows))"
  by (induction bs arbitrary: rows) simp_all

lemma Create_branches_prefix:
  "\<exists>new. Create_branches bs rows = rows @ new
        \<and> (\<forall>r\<in>set new. \<exists>b\<in>set bs. \<exists>i. r = b\<lparr>bID := i\<rparr>)"
proof (induction bs arbitrary: rows)
  case Nil
  then show ?case by simp
next
  case (Cons b bs)
  show ?case
  proof (cases "bkey b \<in> bkey ` set rows")
    case True
    from Cons.IH[of rows] obtain new where
      "Create_branches bs rows = rows @ new"
      "\<forall>r\<in>set new. \<exists>b\<in>set bs. \<exists>i. r = b\<lparr>bID := i\<rparr>"
      by blast
    with True show ?thesis by (intro exI[of _ new]) simp
  next
    case False
    let ?b' = "b\<lparr>bID := next_id (map bID rows)\<rparr>"
    from Cons.IH[of "rows @ [?b']"] obtain new where
      "Create_branches bs (rows @ [?b']) = (rows @ [?b']) @ new"
      "\<forall>r\<in>set new. \<exists>b\<in>set bs. \<exists>i. r = b\<lparr>bID := i\<rparr>"
      by blast
    with False show ?thesis by (intro exI[of _ "?b' # new"]) auto
  qed
qed

lemma Create_branches_app:
  assumes "distinct (map bkey rows)"
  shows "\<exists>new. Create_branches bs rows = rows @ new
        \<and> bkey ` set new = bkey ` set bs - bkey ` set rows
        \<and> distinct (map bkey (rows @ new))
        \<and> (\<forall>r\<in>set new. \<exists>b\<in>set bs. \<exists>i. r = b\<lparr>bID := i\<rparr>)"
proof -
  from Create_branches_prefix[of bs rows] obtain new where
    n: "Create_branches bs rows = rows @ new"
    and c: "\<forall>r\<in>set new. \<exists>b\<in>set bs. \<exists>i. r = b\<lparr>bID := i\<rparr>"
    by blast
  from Create_branches_distinct[OF assms, of bs] n
  have d: "distinct (map bkey (rows @ new))" by simp
  then have disj: "bkey ` set rows \<inter> bkey ` set new = {}" by simp
  from Create_branches_keys[of bs rows] n
  have "bkey ` set rows \<union> bkey ` set new = bkey ` set rows \<union> bkey ` set bs"
    by (simp add: image_Un)
  with disj have "bkey ` set new = bkey ` set bs - bkey ` set rows" by blast
  with n c d show ?thesis by blast
qed

lemma Create_global_conflict:
  "Gid g \<in> Gid ` set rows \<Longrightarrow> Create_global g rows = (0, rows)"
  by (simp add: Create_global_def)

lemma fold_max_ge: "x \<in> set xs \<Longrightarrow> x \<le> fold max xs (a::nat)"
proof (induction xs arbitrary: a)
  case Nil
  then show ?case by simp
next
  case (Cons y ys)
  have "a \<le> fold max ys a" for a :: nat
    by (induction ys arbitrary: a) (auto intro: order_trans[OF max.cobounded2])
  from this[of "max y a"] Cons show ?case by auto
qed

lemma next_id_fresh: "next_id ids \<notin> set ids"
  using fold_max_ge[of "next_id ids" ids 0] by (auto simp: next_id_def)

lemma MaySaveNewTrans_conflict:
  "Gid global \<in> Gid ` set (trans_global d) \<Longrightarrow>
     MaySaveNewTrans global branches d = (Return (Some ErrUniqueConflict), d)"
  by (simp add: MaySaveNewTrans_def Transaction_def Create_global_def)

lemma MaySaveNewTrans_new:
  "Gid global \<notin> Gid ` set (trans_global d) \<Longrightarrow>
     MaySaveNewTrans global branches d =
       (Return None,
        d\<lparr>trans_global := trans_global d @ [global\<lparr>ID := next_id (map ID (trans_global d))\<rparr>],
          trans_branch_op := Create_branches branches (trans_branch_op d)\<rparr>)"
  by (cases branches) (simp_all add: MaySaveNewTrans_def Transaction_def Create_global_def)

lemma MaySaveNewTrans_ex:
  "MaySaveNewTrans (mk_global 0 ''g2'' ''prepared'' None)
      [mk_branch 0 ''g2'' ''01'' ''action'', mk_branch 0 ''g2'' ''01'' ''compensate'',
       mk_branch 0 ''g2'' ''01'' ''action'']
      ex_store
     = (Return None, ex_store')"
  by (simp add: MaySaveNewTrans_def Transaction_def Create_global_def ex_store_def ex_store'_def
        mk_global_def mk_branch_def bkey_def next_id_def)

text \<open>
  C3. When a row with the \<open>gid\<close> of \<open>global\<close> exists, \<^verbatim>\<open>MaySaveNewTrans\<close>
  returns \<^verbatim>\<open>ErrUniqueConflict\<close> and the store is as it was. When none exists, it
  returns nil; the table of transactions has gained one row, \<open>global\<close> under an
  \<open>id\<close> no other row has; the branch table has kept its rows and gained, for
  every key \<open>(gid, branchId, op)\<close> of \<open>branches\<close> that it did not hold, one row,
  a row of \<open>branches\<close> under an \<open>id\<close> of the store; no key occurs twice (given
  that none did before); and every later call with this \<open>gid\<close>, whatever else
  it passes, returns \<^verbatim>\<open>ErrUniqueConflict\<close> and changes nothing.
\<close>

theorem MaySaveNewTrans_idempotent:
  assumes run: "MaySaveNewTrans global branches d = (res, d')"
    and keys: "distinct (map bkey (trans_branch_op d))"
  shows "if Gid global \<in> Gid ` set (trans_global d)
         then res = Return (Some ErrUniqueConflict) \<and> d' = d
         else res = Return None
            \<and> (\<exists>i. i \<notin> ID ` set (trans_global d)
                  \<and> trans_global d' = trans_global d @ [global\<lparr>ID := i\<rparr>])
            \<and> (\<exists>new. trans_branch_op d' = trans_branch_op d @ new
                  \<and> bkey ` set new = bkey ` set branches - bkey ` set (trans_branch_op d)
                  \<and> (\<forall>r\<in>set new. \<exists>b\<in>set branches. \<exists>i. r = b\<lparr>bID := i\<rparr>))
            \<and> distinct (map bkey (trans_branch_op d'))
            \<and> (\<forall>(global2::TransGlobalStore) branches2. Gid global2 = Gid global \<longrightarrow>
                  MaySaveNewTrans global2 branches2 d' = (Return (Some ErrUniqueConflict), d'))"
    (is "if ?C then ?T else ?E")
proof (cases ?C)
  case True
  with MaySaveNewTrans_conflict[OF True, of branches] run show ?thesis by simp
next
  case False
  let ?i = "next_id (map ID (trans_global d))"
  from MaySaveNewTrans_new[OF False, of branches] run
  have res: "res = Return None"
    and d': "d' = d\<lparr>trans_global := trans_global d @ [global\<lparr>ID := ?i\<rparr>],
                    trans_branch_op := Create_branches branches (trans_branch_op d)\<rparr>"
    by simp_all
  from Create_branches_app[OF keys, of branches] obtain new where
    n: "Create_branches branches (trans_branch_op d) = trans_branch_op d @ new"
       "bkey ` set new = bkey ` set branches - bkey ` set (trans_branch_op d)"
       "distinct (map bkey (trans_branch_op d @ new))"
       "\<forall>r\<in>set new. \<exists>b\<in>set branches. \<exists>i. r = b\<lparr>bID := i\<rparr>"
    by blast
  have a: "\<exists>i. i \<notin> ID ` set (trans_global d) \<and> trans_global d' = trans_global d @ [global\<lparr>ID := i\<rparr>]"
    using next_id_fresh[of "map ID (trans_global d)"] d' by (intro exI[of _ ?i]) simp
  have b: "\<exists>new. trans_branch_op d' = trans_branch_op d @ new
                  \<and> bkey ` set new = bkey ` set branches - bkey ` set (trans_branch_op d)
                  \<and> (\<forall>r\<in>set new. \<exists>b\<in>set branches. \<exists>i. r = b\<lparr>bID := i\<rparr>)"
    using n d' by (intro exI[of _ new]) simp
  have c: "distinct (map bkey (trans_branch_op d'))" using n d' by simp
  have e: "\<forall>(global2::TransGlobalStore) branches2. Gid global2 = Gid global \<longrightarrow>
                  MaySaveNewTrans global2 branches2 d' = (Return (Some ErrUniqueConflict), d')"
  proof (intro allI impI)
    fix global2 :: TransGlobalStore and branches2 assume "Gid global2 = Gid global"
    then have "Gid global2 \<in> Gid ` set (trans_global d')" using d' by simp
    then show "MaySaveNewTrans global2 branches2 d' = (Return (Some ErrUniqueConflict), d')"
      by (rule MaySaveNewTrans_conflict)
  qed
  from res a b c e have ?E by blast
  then show ?thesis unfolding if_not_P[OF False] .
qed

theorem MaySaveNewTrans_idempotent_witness:
  "MaySaveNewTrans (mk_global 0 ''g2'' ''prepared'' None)
      [mk_branch 0 ''g2'' ''01'' ''action'', mk_branch 0 ''g2'' ''01'' ''compensate'',
       mk_branch 0 ''g2'' ''01'' ''action'']
      ex_store
     = (Return None, ex_store')
   \<and> MaySaveNewTrans (mk_global 0 ''g2'' ''prepared'' None)
      [mk_branch 0 ''g2'' ''01'' ''action'', mk_branch 0 ''g2'' ''01'' ''compensate'',
       mk_branch 0 ''g2'' ''01'' ''action'']
      ex_store'
     = (Return (Some ErrUniqueConflict), ex_store')
   \<and> distinct (map bkey (trans_branch_op ex_store'))"
proof -
  have keys: "distinct (map bkey (trans_branch_op ex_store))"
    by (simp add: ex_store_def)
  have new: "\<not> Gid (mk_global 0 ''g2'' ''prepared'' None) \<in> Gid ` set (trans_global ex_store)"
    by (simp add: ex_store_def mk_global_def)
  from MaySaveNewTrans_idempotent[OF MaySaveNewTrans_ex keys, unfolded if_not_P[OF new]]
  have "distinct (map bkey (trans_branch_op ex_store'))"
    and "\<forall>(global2::TransGlobalStore) branches2.
           Gid global2 = Gid (mk_global 0 ''g2'' ''prepared'' None) \<longrightarrow>
           MaySaveNewTrans global2 branches2 ex_store' = (Return (Some ErrUniqueConflict), ex_store')"
    by blast+
  with MaySaveNewTrans_ex show ?thesis by simp
qed

section \<open>LockGlobalSaveBranches: append under the row lock\<close>

lemma Save_keys: "bkey ` set (Save bs rows) = bkey ` set rows \<union> bkey ` set bs"
proof (induction bs arbitrary: rows)
  case Nil
  then show ?case by simp
next
  case (Cons b bs)
  show ?case
  proof (cases "bkey b \<in> bkey ` set rows")
    case True
    let ?rows1 = "map (\<lambda>r. if bkey r = bkey b then b\<lparr>bID := bID r\<rparr> else r) rows"
    have "bkey ` set ?rows1 = bkey ` set rows"
      by (induction rows) auto
    moreover from True have "Save (b # bs) rows = Save bs ?rows1" by simp
    ultimately show ?thesis using Cons.IH[of ?rows1] True by (simp add: insert_absorb)
  next
    case False
    then have "Save (b # bs) rows = Save bs (rows @ [b\<lparr>bID := next_id (map bID rows)\<rparr>])"
      by simp
    with Cons.IH[of "rows @ [b\<lparr>bID := next_id (map bID rows)\<rparr>]"] show ?thesis
      by (simp add: Un_commute insert_commute)
  qed
qed

lemma Save_keeps:
  "r \<in> set rows \<Longrightarrow> bkey r \<notin> bkey ` set bs \<Longrightarrow> r \<in> set (Save bs rows)"
proof (induction bs arbitrary: rows)
  case Nil
  then show ?case by simp
next
  case (Cons b bs)
  from Cons.prems have nb: "bkey r \<noteq> bkey b" and nbs: "bkey r \<notin> bkey ` set bs" by auto
  show ?case
  proof (cases "bkey b \<in> bkey ` set rows")
    case True
    let ?rows1 = "map (\<lambda>r. if bkey r = bkey b then b\<lparr>bID := bID r\<rparr> else r) rows"
    from Cons.prems(1) nb have "r \<in> set ?rows1" by force
    from Cons.IH[OF this nbs] True show ?thesis by simp
  next
    case False
    from Cons.prems(1) have "r \<in> set (rows @ [b\<lparr>bID := next_id (map bID rows)\<rparr>])" by simp
    from Cons.IH[OF this nbs] False show ?thesis by simp
  qed
qed

lemma Save_written:
  "distinct (map bkey bs) \<Longrightarrow> b \<in> set bs \<Longrightarrow> \<exists>i. b\<lparr>bID := i\<rparr> \<in> set (Save bs rows)"
proof (induction bs arbitrary: rows)
  case Nil
  then show ?case by simp
next
  case (Cons a bs)
  let ?rows1 = "if bkey a \<in> set (map bkey rows)
        then map (\<lambda>r. if bkey r = bkey a then a\<lparr>bID := bID r\<rparr> else r) rows
        else rows @ [a\<lparr>bID := next_id (map bID rows)\<rparr>]"
  have S: "Save (a # bs) rows = Save bs ?rows1" by simp
  show ?case
  proof (cases "b = a")
    case True
    have "\<exists>i. a\<lparr>bID := i\<rparr> \<in> set ?rows1"
    proof (cases "bkey a \<in> set (map bkey rows)")
      case True
      then obtain r where "r \<in> set rows" "bkey r = bkey a" by auto
      then have "a\<lparr>bID := bID r\<rparr> \<in> set ?rows1" using True by force
      then show ?thesis by blast
    next
      case False
      then show ?thesis by auto
    qed
    then obtain i where i: "a\<lparr>bID := i\<rparr> \<in> set ?rows1" by blast
    from Cons.prems(1) have "bkey (a\<lparr>bID := i\<rparr>) \<notin> bkey ` set bs" by simp
    from Save_keeps[OF i this] S True show ?thesis by auto
  next
    case False
    with Cons.prems have "distinct (map bkey bs)" "b \<in> set bs" by auto
    from Cons.IH[OF this, of ?rows1] S show ?thesis by simp
  qed
qed

lemma LockGlobalSaveBranches_none:
  assumes "First ID (\<lambda>g. Gid g = gid \<and> Status g = status) (trans_global d) = None"
  shows "LockGlobalSaveBranches gid status branches branchStart d
           = (Panic ErrNotFound, d, [Begin, SelectForUpdate None, Rollback])"
  using assms
  by (simp add: LockGlobalSaveBranches_def Transaction_log_def wrapError_def E2P_def)

lemma LockGlobalSaveBranches_some:
  assumes "First ID (\<lambda>g. Gid g = gid \<and> Status g = status) (trans_global d) = Some g"
  shows "LockGlobalSaveBranches gid status branches branchStart d
           = (if branches = []
              then (Panic ErrEmptySlice, d, [Begin, SelectForUpdate (Some (ID g)), Rollback])
              else (Return (), d\<lparr>trans_branch_op := Save branches (trans_branch_op d)\<rparr>,
                    [Begin, SelectForUpdate (Some (ID g)), SaveBranches branches, Commit]))"
  using assms
  by (simp add: LockGlobalSaveBranches_def Transaction_log_def tx_Save_def wrapError_def E2P_def)

text \<open>
  C4. \<^verbatim>\<open>LockGlobalSaveBranches\<close> is one transaction: \<^verbatim>\<open>BEGIN\<close>, the
  \<^verbatim>\<open>SELECT ... FOR UPDATE\<close> of the row with the given \<open>gid\<close> and \<open>status\<close>,
  the write of the branches if that row was found, then \<^verbatim>\<open>COMMIT\<close> or
  \<^verbatim>\<open>ROLLBACK\<close>. When no row of \<^verbatim>\<open>trans_global\<close> matches, the call panics
  with \<^verbatim>\<open>ErrNotFound\<close>, no write is sent, the transaction is rolled back and the
  store, its branch rows included, is as it was. When a row matches, the row locked
  is a matching row, and the branches are written between that lock and the commit
  of the same transaction: the call returns, the table of transactions is
  untouched, the keys of the branch table are the old keys and those of
  \<open>branches\<close>, every branch passed is in the table (for \<open>branches\<close> with
  distinct keys, under some \<open>id\<close>), and rows with other keys are kept. The one
  exception is an empty \<open>branches\<close>, which gorm refuses: the call then panics
  with \<^verbatim>\<open>ErrEmptySlice\<close>, rolled back, the store as it was.
\<close>

theorem LockGlobalSaveBranches_guard:
  assumes run: "LockGlobalSaveBranches gid status branches branchStart d = (res, d', sent)"
  shows "if \<forall>g\<in>set (trans_global d). \<not> (Gid g = gid \<and> Status g = status)
         then res = Panic ErrNotFound \<and> d' = d
            \<and> sent = [Begin, SelectForUpdate None, Rollback]
         else \<exists>g\<in>set (trans_global d).
                Gid g = gid \<and> Status g = status
              \<and> (if branches = []
                 then res = Panic ErrEmptySlice \<and> d' = d
                    \<and> sent = [Begin, SelectForUpdate (Some (ID g)), Rollback]
                 else res = Return ()
                    \<and> sent = [Begin, SelectForUpdate (Some (ID g)), SaveBranches branches, Commit]
                    \<and> trans_global d' = trans_global d
                    \<and> bkey ` set (trans_branch_op d')
                        = bkey ` set (trans_branch_op d) \<union> bkey ` set branches
                    \<and> (distinct (map bkey branches) \<longrightarrow>
                         (\<forall>b\<in>set branches. \<exists>i. b\<lparr>bID := i\<rparr> \<in> set (trans_branch_op d')))
                    \<and> (\<forall>r\<in>set (trans_branch_op d). bkey r \<notin> bkey ` set branches \<longrightarrow>
                         r \<in> set (trans_branch_op d')))"
    (is "if ?C then ?T else ?E")
proof (cases "First ID (\<lambda>g. Gid g = gid \<and> Status g = status) (trans_global d)")
  case None
  then have C: ?C by (simp add: First_None)
  from run[unfolded LockGlobalSaveBranches_none[OF None]]
  have ?T by simp
  then show ?thesis unfolding if_P[OF C] .
next
  case (Some g)
  from First_Some[OF Some] have g: "g \<in> set (trans_global d)" "Gid g = gid" "Status g = status"
    by simp_all
  then have C: "\<not> ?C" by blast
  have "?E"
  proof (cases "branches = []")
    case True
    from run[unfolded LockGlobalSaveBranches_some[OF Some] if_P[OF True]]
    have "res = Panic ErrEmptySlice \<and> d' = d
            \<and> sent = [Begin, SelectForUpdate (Some (ID g)), Rollback]"
      by simp
    with g True show ?thesis by auto
  next
    case False
    from run[unfolded LockGlobalSaveBranches_some[OF Some] if_not_P[OF False]]
    have res: "res = Return ()"
      and d': "d' = d\<lparr>trans_branch_op := Save branches (trans_branch_op d)\<rparr>"
      and sent: "sent = [Begin, SelectForUpdate (Some (ID g)), SaveBranches branches, Commit]"
      by simp_all
    have a: "trans_global d' = trans_global d" using d' by simp
    have b: "bkey ` set (trans_branch_op d') = bkey ` set (trans_branch_op d) \<union> bkey ` set branches"
      using d' by (simp add: Save_keys)
    have c: "distinct (map bkey branches) \<longrightarrow>
                   (\<forall>b\<in>set branches. \<exists>i. b\<lparr>bID := i\<rparr> \<in> set (trans_branch_op d'))"
      using d' by (auto intro: Save_written)
    have e: "\<forall>r\<in>set (trans_branch_op d). bkey r \<notin> bkey ` set branches \<longrightarrow>
                   r \<in> set (trans_branch_op d')"
      using d' by (auto intro: Save_keeps)
    from res sent a b c e False g show ?thesis
      unfolding if_not_P[OF False] by blast
  qed
  then show ?thesis unfolding if_not_P[OF C] .
qed

lemmas save_eval =
  LockGlobalSaveBranches_def Transaction_log_def tx_Save_def wrapError_def E2P_def First_def
  ex_store_def mk_global_def mk_branch_def bkey_def next_id_def

lemma LockGlobalSaveBranches_ex:
  "LockGlobalSaveBranches ''g1'' ''prepared'' [mk_branch 0 ''g1'' ''02'' ''action''] 0 ex_store
     = (Return (),
        ex_store\<lparr>trans_branch_op :=
           [mk_branch 1 ''g1'' ''01'' ''action'', mk_branch 2 ''g1'' ''02'' ''action'']\<rparr>,
        [Begin, SelectForUpdate (Some 1), SaveBranches [mk_branch 0 ''g1'' ''02'' ''action''], Commit])"
  by (simp add: save_eval)

theorem LockGlobalSaveBranches_guard_witness:
  "LockGlobalSaveBranches ''g1'' ''submitted'' [mk_branch 0 ''g1'' ''02'' ''action''] 0 ex_store
     = (Panic ErrNotFound, ex_store, [Begin, SelectForUpdate None, Rollback])
   \<and> LockGlobalSaveBranches ''g1'' ''prepared'' [] 0 ex_store
     = (Panic ErrEmptySlice, ex_store, [Begin, SelectForUpdate (Some 1), Rollback])
   \<and> (\<exists>i. (mk_branch 0 ''g1'' ''02'' ''action'')\<lparr>bID := i\<rparr>
         \<in> set [mk_branch 1 ''g1'' ''01'' ''action'', mk_branch 2 ''g1'' ''02'' ''action''])"
proof -
  let ?bs = "[mk_branch 0 ''g1'' ''02'' ''action'']"
  obtain res d' sent where
    h: "LockGlobalSaveBranches ''g1'' ''submitted'' ?bs 0 ex_store = (res, d', sent)"
    by (cases "LockGlobalSaveBranches ''g1'' ''submitted'' ?bs 0 ex_store") auto
  have none: "\<forall>g\<in>set (trans_global ex_store). \<not> (Gid g = ''g1'' \<and> Status g = ''submitted'')"
    by (simp add: ex_store_def mk_global_def)
  from LockGlobalSaveBranches_guard[OF h, unfolded if_P[OF none]] h
  have one: "LockGlobalSaveBranches ''g1'' ''submitted'' ?bs 0 ex_store
     = (Panic ErrNotFound, ex_store, [Begin, SelectForUpdate None, Rollback])"
    by simp
  have some: "\<not> (\<forall>g\<in>set (trans_global ex_store). \<not> (Gid g = ''g1'' \<and> Status g = ''prepared''))"
    by (simp add: ex_store_def mk_global_def)
  obtain res1 d1 sent1 where
    h1: "LockGlobalSaveBranches ''g1'' ''prepared'' [] 0 ex_store = (res1, d1, sent1)"
    by (cases "LockGlobalSaveBranches ''g1'' ''prepared'' [] 0 ex_store") auto
  from LockGlobalSaveBranches_guard[OF h1, unfolded if_not_P[OF some]]
  have "res1 = Panic ErrEmptySlice \<and> d1 = ex_store
          \<and> sent1 = [Begin, SelectForUpdate (Some 1), Rollback]"
    by (auto simp: ex_store_def mk_global_def)
  with h1 have two: "LockGlobalSaveBranches ''g1'' ''prepared'' [] 0 ex_store
     = (Panic ErrEmptySlice, ex_store, [Begin, SelectForUpdate (Some 1), Rollback])"
    by simp
  have dist: "distinct (map bkey ?bs)" by simp
  have ne: "?bs \<noteq> []" by simp
  from LockGlobalSaveBranches_guard[OF LockGlobalSaveBranches_ex, unfolded if_not_P[OF some] if_not_P[OF ne]]
    dist
  have "\<forall>b\<in>set ?bs. \<exists>i. b\<lparr>bID := i\<rparr> \<in> set (trans_branch_op
          (ex_store\<lparr>trans_branch_op :=
           [mk_branch 1 ''g1'' ''01'' ''action'', mk_branch 2 ''g1'' ''02'' ''action'']\<rparr>))"
    by blast
  then have three: "\<exists>i. (mk_branch 0 ''g1'' ''02'' ''action'')\<lparr>bID := i\<rparr>
         \<in> set [mk_branch 1 ''g1'' ''01'' ''action'', mk_branch 2 ''g1'' ''02'' ''action'']"
    by simp
  from one two three show ?thesis by blast
qed

section \<open>ScanTransGlobalStores: paging by cursor\<close>

lemma digit_of_char_of: "k < 10 \<Longrightarrow> digit_of (char_of (48 + k)) = Some k"
  by (simp add: digit_of_def Let_def)

lemma parse_digits_append:
  "parse_digits acc (xs @ ys) =
     (case parse_digits acc xs of None \<Rightarrow> None | Some a \<Rightarrow> parse_digits a ys)"
  by (induction xs arbitrary: acc) (auto split: option.splits)

lemma parse_digits_Sprintf_d:
  "parse_digits acc (Sprintf_d n) = Some (acc * 10 ^ length (Sprintf_d n) + n)"
proof (induction n arbitrary: acc rule: Sprintf_d.induct)
  case (1 n)
  show ?case
  proof (cases "n < 10")
    case True
    then show ?thesis
      by (simp add: Sprintf_d.simps[of n] digit_of_char_of)
  next
    case False
    have m: "n mod 10 < 10" by simp
    from False 1[OF False, of acc] show ?thesis
      by (simp add: Sprintf_d.simps[of n] parse_digits_append digit_of_char_of[OF m]
            algebra_simps)
  qed
qed

lemma Sprintf_d_not_Nil: "Sprintf_d n \<noteq> []"
  by (subst Sprintf_d.simps) simp

lemma Sprintf_d_digits: "c \<in> set (Sprintf_d n) \<Longrightarrow> digit_of c \<noteq> None"
proof (induction n rule: Sprintf_d.induct)
  case (1 n)
  show ?case
  proof (cases "n < 10")
    case True
    with 1(2) show ?thesis
      by (simp add: Sprintf_d.simps[of n] digit_of_char_of)
  next
    case False
    have m: "n mod 10 < 10" by simp
    from False 1 show ?thesis
      by (auto simp: Sprintf_d.simps[of n] digit_of_char_of[OF m])
  qed
qed

lemma Atoi_Sprintf_d:
  assumes "int n \<le> MaxInt64"
  shows "Atoi (Sprintf_d n) = Some (int n)"
proof -
  obtain c cs where s: "Sprintf_d n = c # cs"
    using Sprintf_d_not_Nil[of n] by (cases "Sprintf_d n") auto
  then have "digit_of c \<noteq> None" using Sprintf_d_digits[of c n] by simp
  then have "c \<noteq> CHR ''-''" "c \<noteq> CHR ''+''"
    by (auto simp: digit_of_def)
  moreover have "parse_digits 0 (c # cs) = Some n"
    using parse_digits_Sprintf_d[of 0 n] s by simp
  moreover have "- MaxInt64 - 1 \<le> int n" by (simp add: MaxInt64_def)
  ultimately show ?thesis
    using assms s by (simp add: Atoi_def)
qed

lemma order_id_desc_filter: "filter P (order_id_desc rs) = order_id_desc (filter P rs)"
  by (simp add: order_id_desc_def rev_filter[symmetric] filter_sort)

lemma set_order_id_desc [simp]: "set (order_id_desc rs) = set rs"
  by (simp add: order_id_desc_def)

lemma length_order_id_desc [simp]: "length (order_id_desc rs) = length rs"
  by (simp add: order_id_desc_def)

lemma order_id_desc_sorted:
  assumes "distinct (map ID rs)"
  shows "sorted_wrt (\<lambda>a b. ID b < ID a) (order_id_desc rs)"
proof -
  have "sorted (map ID (sort_key ID rs))" by simp
  moreover have "distinct (map ID (sort_key ID rs))"
    using assms by (simp add: distinct_map)
  ultimately have "sorted_wrt (<) (map ID (sort_key ID rs))"
    by (simp add: strict_sorted_iff)
  then have "sorted_wrt (\<lambda>a b. ID a < ID b) (sort_key ID rs)"
    by (simp add: sorted_wrt_map)
  then show ?thesis
    by (simp add: order_id_desc_def sorted_wrt_rev)
qed

lemma filter_below_last:
  assumes "sorted_wrt (\<lambda>a b. ID b < ID a) (pre @ suf)" and "pre \<noteq> []"
  shows "filter (\<lambda>r. int (ID r) < int (ID (last pre))) (pre @ suf) = suf"
proof -
  from assms(2) obtain bl l where pre: "pre = bl @ [l]"
    by (metis append_butlast_last_id)
  from assms(1) pre have a: "\<forall>x\<in>set bl. ID l < ID x" and b: "\<forall>y\<in>set suf. ID y < ID l"
    by (auto simp: sorted_wrt_append)
  from a have "filter (\<lambda>r. int (ID r) < int (ID l)) pre = []"
    using pre by (auto simp: filter_empty_conv)
  moreover from b have "filter (\<lambda>r. int (ID r) < int (ID l)) suf = suf"
    by (auto simp: filter_id_conv)
  ultimately show ?thesis using pre by simp
qed

lemma Scan_eq:
  assumes lim: "0 < limit"
    and cur: "position = [] \<and> lid = MaxInt64 \<or> position \<noteq> [] \<and> Atoi position = Some lid"
  shows "ScanTransGlobalStores position limit d =
     (let globals = take (nat limit) (filter (\<lambda>r. int (ID r) < lid) (order_id_desc (trans_global d)))
      in (Return globals,
          if int (length globals) < limit then [] else Sprintf_d (ID (last globals))))"
proof -
  let ?globals = "take (nat limit) (filter (\<lambda>r. int (ID r) < lid) (order_id_desc (trans_global d)))"
  from cur have c: "(if position \<noteq> [] then MustAtoi position else Return MaxInt64) = Return lid"
    by (auto simp: MustAtoi_def)
  have "\<not> int (length ?globals) < limit \<Longrightarrow> ?globals \<noteq> []"
    using lim by auto
  then show ?thesis
    using lim unfolding ScanTransGlobalStores_def c
    by (simp add: sql_limit_def order_id_desc_filter Let_def)
qed

lemma scan_all_suffix:
  assumes lim: "0 < limit"
    and srt: "sorted_wrt (\<lambda>a b. ID b < ID a) (order_id_desc (trans_global d))"
    and bound: "\<forall>r\<in>set (trans_global d). int (ID r) < MaxInt64"
  shows "order_id_desc (trans_global d) = pre @ suf \<Longrightarrow>
         pre = [] \<and> position = [] \<or> pre \<noteq> [] \<and> position = Sprintf_d (ID (last pre)) \<Longrightarrow>
         length suf < fuel \<Longrightarrow>
         \<exists>pages. scan_all fuel position limit d = Some (Return pages)
               \<and> concat pages = suf
               \<and> (\<forall>p\<in>set pages. int (length p) \<le> limit)"
proof (induction fuel arbitrary: pre suf position)
  case 0
  then show ?case by simp
next
  case (Suc fuel)
  let ?ds = "order_id_desc (trans_global d)"
  define lid where "lid = (if pre = [] then MaxInt64 else int (ID (last pre)))"
  have cur: "position = [] \<and> lid = MaxInt64 \<or> position \<noteq> [] \<and> Atoi position = Some lid"
  proof (cases "pre = []")
    case True
    with Suc.prems(2) show ?thesis by (simp add: lid_def)
  next
    case False
    then have "last pre \<in> set ?ds" using Suc.prems(1) by simp
    then have "int (ID (last pre)) \<le> MaxInt64" using bound by auto
    from Atoi_Sprintf_d[OF this] False Suc.prems(2) show ?thesis
      by (simp add: lid_def Sprintf_d_not_Nil)
  qed
  have flt: "filter (\<lambda>r. int (ID r) < lid) ?ds = suf"
  proof (cases "pre = []")
    case True
    then have "?ds = suf" using Suc.prems(1) by simp
    moreover have "\<forall>r\<in>set ?ds. int (ID r) < MaxInt64" using bound by simp
    ultimately show ?thesis using True by (simp add: lid_def filter_id_conv)
  next
    case False
    from filter_below_last[OF srt[unfolded Suc.prems(1)] False] False Suc.prems(1)
    show ?thesis by (simp add: lid_def)
  qed
  let ?page = "take (nat limit) suf"
  have run: "ScanTransGlobalStores position limit d =
               (Return ?page, if int (length ?page) < limit then [] else Sprintf_d (ID (last ?page)))"
    unfolding Scan_eq[OF lim cur] flt Let_def ..
  have plen: "int (length ?page) \<le> limit" using lim by simp
  show ?case
  proof (cases "int (length ?page) < limit")
    case True
    then have "?page = suf" using lim by simp
    with True run plen show ?thesis by simp
  next
    case False
    then have full: "length ?page = nat limit" and ne: "?page \<noteq> []"
      using lim by auto
    let ?pos' = "Sprintf_d (ID (last ?page))"
    have sp: "?ds = (pre @ ?page) @ drop (nat limit) suf"
      using Suc.prems(1) by simp
    have c2: "pre @ ?page = [] \<and> ?pos' = [] \<or>
              pre @ ?page \<noteq> [] \<and> ?pos' = Sprintf_d (ID (last (pre @ ?page)))"
      using ne by simp
    have "length (drop (nat limit) suf) < fuel"
      using Suc.prems(3) full lim by auto
    from Suc.IH[OF sp c2 this] obtain pages where
      pg: "scan_all fuel ?pos' limit d = Some (Return pages)"
          "concat pages = drop (nat limit) suf"
          "\<forall>p\<in>set pages. int (length p) \<le> limit"
      by blast
    have "scan_all (Suc fuel) position limit d = Some (Return (?page # pages))"
      using run False pg(1) by (simp add: Sprintf_d_not_Nil)
    moreover have "concat (?page # pages) = suf" using pg(2) by simp
    moreover have "\<forall>p\<in>set (?page # pages). int (length p) \<le> limit"
      using pg(3) plen by simp
    ultimately show ?thesis by blast
  qed
qed

lemma char_of_50: "char_of (50::nat) = CHR ''2''"
  by code_simp

lemma Scan_ex_first:
  "ScanTransGlobalStores [] 2 ex_table
     = (Return [mk_global 3 ''g3'' ''prepared'' None, mk_global 2 ''g2'' ''succeed'' None], ''2'')"
  by (simp add: ScanTransGlobalStores_def sql_limit_def order_id_desc_def MaxInt64_def
        ex_table_def mk_global_def Sprintf_d.simps[of 2] char_of_50 Let_def)

lemma Scan_ex_second:
  "ScanTransGlobalStores ''2'' 2 ex_table = (Return [mk_global 1 ''g1'' ''failed'' None], [])"
  by (simp add: ScanTransGlobalStores_def MustAtoi_def Atoi_def digit_of_def sql_limit_def
        order_id_desc_def MaxInt64_def ex_table_def mk_global_def Let_def)

lemma scan_all_ex:
  "scan_all 3 [] 2 ex_table
     = Some (Return [[mk_global 3 ''g3'' ''prepared'' None, mk_global 2 ''g2'' ''succeed'' None],
                     [mk_global 1 ''g1'' ''failed'' None]])"
  by (simp add: numeral_3_eq_3 Scan_ex_first Scan_ex_second)

text \<open>
  C6. For a positive limit and a table whose ids are distinct. A call with a
  cursor that is empty (then the bound \<open>lid\<close> is \<^verbatim>\<open>math.MaxInt64\<close>) or the decimal
  text of a number \<open>lid\<close> returns rows of the table with \<open>id < lid\<close>, in strictly
  decreasing order of \<open>id\<close>, at most \<open>limit\<close> of them, and they are the greatest
  below the bound: a row below the bound that is not returned has a smaller \<open>id\<close>
  than the last row returned, and then the page is full. The cursor afterwards is
  the \<open>id\<close> of the last row when exactly \<open>limit\<close> rows were returned and empty
  otherwise. When moreover all ids are below \<^verbatim>\<open>math.MaxInt64\<close>, calling again and
  again from the empty cursor ends with an empty cursor after at most as many calls
  as there are rows, plus one, and the pages returned, one after the other, hold
  every row of the table once, in strictly decreasing order of \<open>id\<close>.
\<close>

theorem ScanTransGlobalStores_pages:
  assumes lim: "0 < limit"
    and ids: "distinct (map ID (trans_global d))"
  shows "(\<forall>position lid.
            position = [] \<and> lid = MaxInt64 \<or> position \<noteq> [] \<and> Atoi position = Some lid \<longrightarrow>
            (\<exists>globals position'.
                ScanTransGlobalStores position limit d = (Return globals, position')
              \<and> set globals \<subseteq> {r \<in> set (trans_global d). int (ID r) < lid}
              \<and> sorted_wrt (\<lambda>a b. ID b < ID a) globals
              \<and> int (length globals) \<le> limit
              \<and> (\<forall>r\<in>set (trans_global d). int (ID r) < lid \<and> r \<notin> set globals \<longrightarrow>
                    int (length globals) = limit \<and> ID r < ID (last globals))
              \<and> position' =
                  (if int (length globals) = limit then Sprintf_d (ID (last globals)) else [])))
       \<and> ((\<forall>r\<in>set (trans_global d). int (ID r) < MaxInt64) \<longrightarrow>
            (\<exists>pages.
                scan_all (Suc (length (trans_global d))) [] limit d = Some (Return pages)
              \<and> (\<forall>p\<in>set pages. int (length p) \<le> limit)
              \<and> sorted_wrt (\<lambda>a b. ID b < ID a) (concat pages)
              \<and> set (concat pages) = set (trans_global d)
              \<and> length (concat pages) = length (trans_global d)))"
proof (intro conjI allI impI)
  fix position lid
  assume cur: "position = [] \<and> lid = MaxInt64 \<or> position \<noteq> [] \<and> Atoi position = Some lid"
  let ?ds = "order_id_desc (trans_global d)"
  let ?fl = "filter (\<lambda>r. int (ID r) < lid) ?ds"
  let ?globals = "take (nat limit) ?fl"
  have srt: "sorted_wrt (\<lambda>a b. ID b < ID a) ?ds" by (rule order_id_desc_sorted[OF ids])
  then have srtf: "sorted_wrt (\<lambda>a b. ID b < ID a) ?fl" by (rule sorted_wrt_filter)
  have srta: "sorted_wrt (\<lambda>a b. ID b < ID a) (?globals @ drop (nat limit) ?fl)"
    using srtf by simp
  have seta: "set ?fl = set ?globals \<union> set (drop (nat limit) ?fl)"
    using set_append[of ?globals "drop (nat limit) ?fl"] by simp
  have a: "set ?globals \<subseteq> {r \<in> set (trans_global d). int (ID r) < lid}"
    using set_take_subset[of "nat limit" ?fl] by auto
  have b: "sorted_wrt (\<lambda>a b. ID b < ID a) ?globals"
    using srta unfolding sorted_wrt_append by (rule conjunct1)
  have c: "int (length ?globals) \<le> limit" using lim by simp
  have e: "\<forall>r\<in>set (trans_global d). int (ID r) < lid \<and> r \<notin> set ?globals \<longrightarrow>
              int (length ?globals) = limit \<and> ID r < ID (last ?globals)"
  proof (intro ballI impI)
    fix r assume r: "r \<in> set (trans_global d)" and "int (ID r) < lid \<and> r \<notin> set ?globals"
    then have "r \<in> set ?fl" "r \<notin> set ?globals" by simp_all
    with seta have rd: "r \<in> set (drop (nat limit) ?fl)"
      by blast
    then have "drop (nat limit) ?fl \<noteq> []" by auto
    then have len: "nat limit < length ?fl" by simp
    then have full: "int (length ?globals) = limit" using lim by simp
    from len lim have ne: "?globals \<noteq> []" by auto
    then have "last ?globals \<in> set ?globals" by simp
    moreover have "\<forall>x\<in>set ?globals. \<forall>y\<in>set (drop (nat limit) ?fl). ID y < ID x"
      using srta unfolding sorted_wrt_append by blast
    ultimately have "ID r < ID (last ?globals)" using rd by blast
    with full show "int (length ?globals) = limit \<and> ID r < ID (last ?globals)" by simp
  qed
  have f: "(if int (length ?globals) < limit then [] else Sprintf_d (ID (last ?globals)))
             = (if int (length ?globals) = limit then Sprintf_d (ID (last ?globals)) else [])"
    using c by auto
  show "\<exists>globals position'.
                ScanTransGlobalStores position limit d = (Return globals, position')
              \<and> set globals \<subseteq> {r \<in> set (trans_global d). int (ID r) < lid}
              \<and> sorted_wrt (\<lambda>a b. ID b < ID a) globals
              \<and> int (length globals) \<le> limit
              \<and> (\<forall>r\<in>set (trans_global d). int (ID r) < lid \<and> r \<notin> set globals \<longrightarrow>
                    int (length globals) = limit \<and> ID r < ID (last globals))
              \<and> position' =
                  (if int (length globals) = limit then Sprintf_d (ID (last globals)) else [])"
    apply (rule exI[of _ ?globals])
    apply (rule exI[of _ "if int (length ?globals) < limit then [] else Sprintf_d (ID (last ?globals))"])
    apply (intro conjI)
    subgoal unfolding Scan_eq[OF lim cur] Let_def ..
    subgoal by (rule a)
    subgoal by (rule b)
    subgoal by (rule c)
    subgoal by (rule e)
    subgoal by (rule f)
    done
next
  assume bound: "\<forall>r\<in>set (trans_global d). int (ID r) < MaxInt64"
  let ?ds = "order_id_desc (trans_global d)"
  have srt: "sorted_wrt (\<lambda>a b. ID b < ID a) ?ds" by (rule order_id_desc_sorted[OF ids])
  have "\<exists>pages. scan_all (Suc (length (trans_global d))) [] limit d = Some (Return pages)
               \<and> concat pages = ?ds
               \<and> (\<forall>p\<in>set pages. int (length p) \<le> limit)"
    by (rule scan_all_suffix[OF lim srt bound, of "[]" ?ds "[]"]) simp_all
  then obtain pages where
    pg: "scan_all (Suc (length (trans_global d))) [] limit d = Some (Return pages)"
        "concat pages = ?ds" "\<forall>p\<in>set pages. int (length p) \<le> limit"
    by blast
  show "\<exists>pages.
                scan_all (Suc (length (trans_global d))) [] limit d = Some (Return pages)
              \<and> (\<forall>p\<in>set pages. int (length p) \<le> limit)
              \<and> sorted_wrt (\<lambda>a b. ID b < ID a) (concat pages)
              \<and> set (concat pages) = set (trans_global d)
              \<and> length (concat pages) = length (trans_global d)"
  proof (intro exI[of _ pages] conjI)
    show "scan_all (Suc (length (trans_global d))) [] limit d = Some (Return pages)" by (rule pg(1))
    show "\<forall>p\<in>set pages. int (length p) \<le> limit" by (rule pg(3))
    show "sorted_wrt (\<lambda>a b. ID b < ID a) (concat pages)" unfolding pg(2) by (rule srt)
    show "set (concat pages) = set (trans_global d)" unfolding pg(2) by simp
    show "length (concat pages) = length (trans_global d)" unfolding pg(2) by simp
  qed
qed

theorem ScanTransGlobalStores_pages_witness:
  "ScanTransGlobalStores [] 2 ex_table
     = (Return [mk_global 3 ''g3'' ''prepared'' None, mk_global 2 ''g2'' ''succeed'' None], ''2'')
   \<and> ScanTransGlobalStores ''2'' 2 ex_table = (Return [mk_global 1 ''g1'' ''failed'' None], [])
   \<and> (\<exists>pages.
          scan_all (Suc (length (trans_global ex_table))) [] 2 ex_table = Some (Return pages)
        \<and> (\<forall>p\<in>set pages. int (length p) \<le> 2)
        \<and> sorted_wrt (\<lambda>a b. ID b < ID a) (concat pages)
        \<and> set (concat pages) = set (trans_global ex_table)
        \<and> length (concat pages) = length (trans_global ex_table))"
proof -
  have lim: "0 < (2::int)" by simp
  have ids: "distinct (map ID (trans_global ex_table))"
    by (simp add: ex_table_def mk_global_def)
  have bound: "\<forall>r\<in>set (trans_global ex_table). int (ID r) < MaxInt64"
    by (simp add: ex_table_def mk_global_def MaxInt64_def)
  from ScanTransGlobalStores_pages[OF lim ids] bound
  have "\<exists>pages.
          scan_all (Suc (length (trans_global ex_table))) [] 2 ex_table = Some (Return pages)
        \<and> (\<forall>p\<in>set pages. int (length p) \<le> 2)
        \<and> sorted_wrt (\<lambda>a b. ID b < ID a) (concat pages)
        \<and> set (concat pages) = set (trans_global ex_table)
        \<and> length (concat pages) = length (trans_global ex_table)"
    by blast
  with Scan_ex_first Scan_ex_second show ?thesis by blast
qed

end
